theory Spec2Isabelle
  imports Complex_Main "HOL-Library.FSet" "HOL-Library.Char_ord" "HOL-Library.List_Lexorder"
begin

section \<open>Data model of \<^verbatim>\<open>obographs/assocmodel.py\<close>\<close>

text \<open>
  Term and subject identifiers are Python strings. Strings are compared by \<^verbatim>\<open><\<close> in
  \<^verbatim>\<open>query_intersections\<close>; the lexicographic order on character lists is the order Python
  uses on \<^verbatim>\<open>str\<close>.
\<close>

type_synonym TermID = string
type_synonym SubjectID = string

text \<open>
  The exceptions the module can raise. \<^verbatim>\<open>UnknownSubjectException\<close> is the class declared at
  lines 19-20; \<^verbatim>\<open>TypeError\<close> and \<^verbatim>\<open>KeyError\<close> are the interpreter's own.
\<close>

datatype error = UnknownSubjectException SubjectID | TypeError | KeyError

text \<open>
  The ontology is an external collaborator (\<^verbatim>\<open>self.ontology\<close>). Only its two methods used by
  the module are modelled; both are taken as total functions, and a Python \<^verbatim>\<open>set\<close> is a
  finite set.
\<close>

record Ontology =
  ancestors :: "TermID \<Rightarrow> TermID fset"
  label :: "TermID \<Rightarrow> string option"

text \<open>
  The fields of \<^verbatim>\<open>AssociationSet\<close>. The dictionary \<^verbatim>\<open>association_map\<close> is kept as the list
  of its items in iteration order (its keys are distinct in a well-formed dictionary); the
  values are the lists of directly annotated terms. The dictionary
  \<^verbatim>\<open>subject_to_inferred_map\<close> is only ever looked up by key, so it is a partial map. The
  field \<^verbatim>\<open>meta\<close> is never read and is left out.
\<close>

record AssociationSet =
  ontology :: Ontology
  association_map :: "(SubjectID \<times> TermID list) list"
  subject_to_inferred_map :: "SubjectID \<rightharpoonup> TermID fset"
  strict :: bool
  subjects :: "SubjectID list"

section \<open>Indexing\<close>

text \<open>
  \<^verbatim>\<open>termset_ancestors\<close> (lines 89-103): the loop accumulates the ancestors of every term, and
  the result adds the terms themselves.
\<close>

fun termset_ancestors_loop :: "Ontology \<Rightarrow> TermID list \<Rightarrow> TermID fset \<Rightarrow> TermID fset" where
  "termset_ancestors_loop ont [] ancs = ancs"
| "termset_ancestors_loop ont (t # ts) ancs =
     termset_ancestors_loop ont ts (ancs |\<union>| ancestors ont t)"

definition termset_ancestors :: "AssociationSet \<Rightarrow> TermID list \<Rightarrow> TermID fset" where
  "termset_ancestors self terms =
     termset_ancestors_loop (ontology self) terms {||} |\<union>| fset_of_list terms"

text \<open>
  \<^verbatim>\<open>index\<close> (lines 49-65): \<^verbatim>\<open>self.subjects\<close> becomes the list of keys, then every item
  of the association map stores its closure. The logging counter \<^verbatim>\<open>n\<close> has no effect on the
  state and is left out.
\<close>

fun index_loop :: "AssociationSet \<Rightarrow> (SubjectID \<times> TermID list) list \<Rightarrow> AssociationSet" where
  "index_loop self [] = self"
| "index_loop self ((subj, terms) # items) =
     index_loop
       (self\<lparr>subject_to_inferred_map :=
          (subject_to_inferred_map self)(subj \<mapsto> termset_ancestors self terms)\<rparr>)
       items"

definition index :: "AssociationSet \<Rightarrow> AssociationSet" where
  "index self =
     index_loop (self\<lparr>subjects := map fst (association_map self)\<rparr>) (association_map self)"

text \<open>
  The constructor (lines 31-47): the closure map starts empty, strict mode is off, and
  \<^verbatim>\<open>index\<close> runs. The attribute \<^verbatim>\<open>subjects\<close> does not exist before \<^verbatim>\<open>index\<close> assigns it.
\<close>

definition AssociationSet_init :: "Ontology \<Rightarrow> (SubjectID \<times> TermID list) list \<Rightarrow> AssociationSet" where
  "AssociationSet_init ont amap =
     index \<lparr>ontology = ont, association_map = amap, subject_to_inferred_map = Map.empty,
            strict = False, subjects = []\<rparr>"

section \<open>Closure lookup\<close>

text \<open>
  \<^verbatim>\<open>inferred_types\<close> (lines 67-87). In strict mode the source evaluates
  \<^verbatim>\<open>UnknownSubjectException(subj)\<close> before the \<^verbatim>\<open>raise\<close>. The class is declared as
  \<^verbatim>\<open>class UnknownSubjectException(): pass\<close>: it has no base class and no constructor, so
  calling it with an argument raises \<^verbatim>\<open>TypeError\<close> and the \<^verbatim>\<open>raise\<close> statement is never
  reached.
\<close>

definition inferred_types :: "AssociationSet \<Rightarrow> SubjectID \<Rightarrow> error + TermID fset" where
  "inferred_types self subj =
     (case subject_to_inferred_map self subj of
        Some ancs \<Rightarrow> Inr ancs
      | None \<Rightarrow> if strict self then Inl TypeError else Inr {||})"

section \<open>Boolean query\<close>

text \<open>
  \<^verbatim>\<open>query\<close> (lines 105-117). The loop body looks the closure up twice, as the source does.
\<close>

fun query_loop ::
  "AssociationSet \<Rightarrow> TermID fset \<Rightarrow> TermID fset \<Rightarrow> nat \<Rightarrow> SubjectID list \<Rightarrow> SubjectID list
     \<Rightarrow> error + SubjectID list" where
  "query_loop self termset negated_termset n_terms [] matches = Inr matches"
| "query_loop self termset negated_termset n_terms (subj # rest) matches =
     (case inferred_types self subj of
        Inl e \<Rightarrow> Inl e
      | Inr ancs \<Rightarrow>
          if fcard (termset |\<inter>| ancs) = n_terms then
            (case inferred_types self subj of
               Inl e \<Rightarrow> Inl e
             | Inr ancs' \<Rightarrow>
                 if fcard (negated_termset |\<inter>| ancs') = 0
                 then query_loop self termset negated_termset n_terms rest (matches @ [subj])
                 else query_loop self termset negated_termset n_terms rest matches)
          else query_loop self termset negated_termset n_terms rest matches)"

definition query :: "AssociationSet \<Rightarrow> TermID list \<Rightarrow> TermID list \<Rightarrow> error + SubjectID list" where
  "query self terms negated_terms =
     (let termset = fset_of_list terms;
          negated_termset = fset_of_list negated_terms;
          n_terms = fcard termset
      in query_loop self termset negated_termset n_terms (subjects self) [])"

section \<open>Pairwise intersections\<close>

text \<open>
  The dictionaries built by \<^verbatim>\<open>query_intersections\<close> (lines 119-147) have the keys
  \<^verbatim>\<open>'x'\<close>, \<^verbatim>\<open>'y'\<close>, \<^verbatim>\<open>'shared'\<close> and \<^verbatim>\<open>'c'\<close>.
\<close>

record IntersectionResult =
  res_x :: TermID
  res_y :: TermID
  res_shared :: "SubjectID fset"
  res_c :: int

text \<open>
  A Python \<^verbatim>\<open>set\<close> is iterated in an order the language does not fix. The model iterates a
  set in ascending order; every loop over a set in this module writes to a dictionary entry
  or a counter of its own element, so the dictionaries built do not depend on the order.
  Only the order of the records of \<^verbatim>\<open>enrichment_test\<close> with equal p-values depends on it.
\<close>

text \<open>First loop: \<^verbatim>\<open>for z in zset: gmap[z] = []\<close>.\<close>

fun gmap_init :: "TermID list \<Rightarrow> (TermID \<rightharpoonup> SubjectID list) \<Rightarrow> (TermID \<rightharpoonup> SubjectID list)" where
  "gmap_init [] gmap = gmap"
| "gmap_init (z # zs) gmap = gmap_init zs (gmap(z \<mapsto> []))"

text \<open>
  Inner loop \<^verbatim>\<open>for a in ancs.intersection(zset): gmap[a].append(subj)\<close>; the subscript raises
  \<^verbatim>\<open>KeyError\<close> on a missing key.
\<close>

fun gmap_append_loop ::
  "TermID list \<Rightarrow> SubjectID \<Rightarrow> (TermID \<rightharpoonup> SubjectID list) \<Rightarrow> error + (TermID \<rightharpoonup> SubjectID list)" where
  "gmap_append_loop [] subj gmap = Inr gmap"
| "gmap_append_loop (a # as) subj gmap =
     (case gmap a of
        None \<Rightarrow> Inl KeyError
      | Some l \<Rightarrow> gmap_append_loop as subj (gmap(a \<mapsto> l @ [subj])))"

fun gmap_subjects_loop ::
  "AssociationSet \<Rightarrow> TermID fset \<Rightarrow> SubjectID list \<Rightarrow> (TermID \<rightharpoonup> SubjectID list)
     \<Rightarrow> error + (TermID \<rightharpoonup> SubjectID list)" where
  "gmap_subjects_loop self zset [] gmap = Inr gmap"
| "gmap_subjects_loop self zset (subj # rest) gmap =
     (case inferred_types self subj of
        Inl e \<Rightarrow> Inl e
      | Inr ancs \<Rightarrow>
          (case gmap_append_loop (sorted_list_of_fset (ancs |\<inter>| zset)) subj gmap of
             Inl e \<Rightarrow> Inl e
           | Inr gmap' \<Rightarrow> gmap_subjects_loop self zset rest gmap'))"

text \<open>
  Third loop: \<^verbatim>\<open>for z in zset: gmap[z] = set(gmap[z])\<close>. The source overwrites each list by
  its set in place; the keys of \<^verbatim>\<open>gmap\<close> are exactly the members of \<^verbatim>\<open>zset\<close>, so after
  the loop every value is a set. The model writes the sets into a second map.
\<close>

fun gmap_to_sets ::
  "TermID list \<Rightarrow> (TermID \<rightharpoonup> SubjectID list) \<Rightarrow> (TermID \<rightharpoonup> SubjectID fset)
     \<Rightarrow> error + (TermID \<rightharpoonup> SubjectID fset)" where
  "gmap_to_sets [] gmap smap = Inr smap"
| "gmap_to_sets (z # zs) gmap smap =
     (case gmap z of
        None \<Rightarrow> Inl KeyError
      | Some l \<Rightarrow> gmap_to_sets zs gmap (smap(z \<mapsto> fset_of_list l)))"

text \<open>
  The nested loops \<^verbatim>\<open>for x in x_terms: for y in x_terms\<close>: both run over \<^verbatim>\<open>x_terms\<close>.
\<close>

fun intersections_inner ::
  "(TermID \<rightharpoonup> SubjectID fset) \<Rightarrow> TermID \<Rightarrow> TermID list \<Rightarrow> IntersectionResult list
     \<Rightarrow> error + IntersectionResult list" where
  "intersections_inner gmap x [] ilist = Inr ilist"
| "intersections_inner gmap x (y # ys) ilist =
     (if x < y then
        (case gmap x of
           None \<Rightarrow> Inl KeyError
         | Some gx \<Rightarrow>
             (case gmap y of
                None \<Rightarrow> Inl KeyError
              | Some gy \<Rightarrow>
                  (let shared = gx |\<inter>| gy
                   in intersections_inner gmap x ys
                        (ilist @ [\<lparr>res_x = x, res_y = y, res_shared = shared,
                                   res_c = int (fcard shared)\<rparr>]))))
      else intersections_inner gmap x ys ilist)"

fun intersections_outer ::
  "(TermID \<rightharpoonup> SubjectID fset) \<Rightarrow> TermID list \<Rightarrow> TermID list \<Rightarrow> IntersectionResult list
     \<Rightarrow> error + IntersectionResult list" where
  "intersections_outer gmap [] x_terms ilist = Inr ilist"
| "intersections_outer gmap (x # xs) x_terms ilist =
     (case intersections_inner gmap x x_terms ilist of
        Inl e \<Rightarrow> Inl e
      | Inr ilist' \<Rightarrow> intersections_outer gmap xs x_terms ilist')"

definition query_intersections ::
  "AssociationSet \<Rightarrow> TermID list \<Rightarrow> TermID list \<Rightarrow> error + IntersectionResult list" where
  "query_intersections self x_terms y_terms =
     (let xset = fset_of_list x_terms;
          yset = fset_of_list y_terms;
          zset = xset |\<union>| yset;
          gmap = gmap_init (sorted_list_of_fset zset) Map.empty
      in case gmap_subjects_loop self zset (subjects self) gmap of
           Inl e \<Rightarrow> Inl e
         | Inr gmap' \<Rightarrow>
             (case gmap_to_sets (sorted_list_of_fset zset) gmap' Map.empty of
                Inl e \<Rightarrow> Inl e
              | Inr gmap'' \<Rightarrow> intersections_outer gmap'' x_terms x_terms []))"

section \<open>Jaccard similarity\<close>

text \<open>
  \<^verbatim>\<open>jaccard_similarity\<close> (lines 244-258). The quotient of the two lengths is Python's true
  division; the model takes it in the reals.
\<close>

definition jaccard_similarity :: "AssociationSet \<Rightarrow> SubjectID \<Rightarrow> SubjectID \<Rightarrow> error + real" where
  "jaccard_similarity self s1 s2 =
     (case inferred_types self s1 of
        Inl e \<Rightarrow> Inl e
      | Inr a1 \<Rightarrow>
          (case inferred_types self s2 of
             Inl e \<Rightarrow> Inl e
           | Inr a2 \<Rightarrow>
               (let num_union = fcard (a1 |\<union>| a2)
                in if num_union = 0 then Inr 0
                   else Inr (real (fcard (a1 |\<inter>| a2)) / real num_union))))"

section \<open>Term enrichment\<close>

text \<open>
  The result dictionaries of \<^verbatim>\<open>enrichment_test\<close> (lines 149-242) have the keys \<^verbatim>\<open>'c'\<close>,
  \<^verbatim>\<open>'p'\<close>, \<^verbatim>\<open>'p_uncorrected'\<close> and, when labels are asked for, \<^verbatim>\<open>'n'\<close> (whose value
  may itself be \<^verbatim>\<open>None\<close>). The p-values are Python floats; the model takes them in the
  reals.
\<close>

record EnrichmentResult =
  enr_c :: TermID
  enr_p :: real
  enr_p_uncorrected :: real
  enr_n :: "string option option"

text \<open>The loop \<^verbatim>\<open>for s in subjects: hypotheses.update(self.inferred_types(s))\<close>.\<close>

fun hypotheses_loop :: "AssociationSet \<Rightarrow> SubjectID list \<Rightarrow> TermID fset \<Rightarrow> error + TermID fset" where
  "hypotheses_loop self [] hypotheses = Inr hypotheses"
| "hypotheses_loop self (s # ss) hypotheses =
     (case inferred_types self s of
        Inl e \<Rightarrow> Inl e
      | Inr ancs \<Rightarrow> hypotheses_loop self ss (hypotheses |\<union>| ancs))"

text \<open>The loop \<^verbatim>\<open>for c in hypotheses: bg_count[c] = 0; sample_count[c] = 0\<close>.\<close>

fun counts_init_loop ::
  "TermID list \<Rightarrow> (TermID \<rightharpoonup> int) \<times> (TermID \<rightharpoonup> int) \<Rightarrow> (TermID \<rightharpoonup> int) \<times> (TermID \<rightharpoonup> int)" where
  "counts_init_loop [] (bg_count, sample_count) = (bg_count, sample_count)"
| "counts_init_loop (c # cs) (bg_count, sample_count) =
     counts_init_loop cs (bg_count(c \<mapsto> 0), sample_count(c \<mapsto> 0))"

text \<open>
  The inner loops \<^verbatim>\<open>for a in ...: count[a] = count[a]+1\<close>; the subscript on the right raises
  \<^verbatim>\<open>KeyError\<close> on a missing key.
\<close>

fun count_incr_loop :: "TermID list \<Rightarrow> (TermID \<rightharpoonup> int) \<Rightarrow> error + (TermID \<rightharpoonup> int)" where
  "count_incr_loop [] cnt = Inr cnt"
| "count_incr_loop (a # as) cnt =
     (case cnt a of
        None \<Rightarrow> Inl KeyError
      | Some n \<Rightarrow> count_incr_loop as (cnt(a \<mapsto> n + 1)))"

fun bg_count_loop ::
  "AssociationSet \<Rightarrow> TermID fset \<Rightarrow> SubjectID list \<Rightarrow> (TermID \<rightharpoonup> int) \<Rightarrow> error + (TermID \<rightharpoonup> int)" where
  "bg_count_loop self hypotheses [] bg_count = Inr bg_count"
| "bg_count_loop self hypotheses (s # ss) bg_count =
     (case inferred_types self s of
        Inl e \<Rightarrow> Inl e
      | Inr ancs \<Rightarrow>
          (case count_incr_loop (sorted_list_of_fset (ancs |\<inter>| hypotheses)) bg_count of
             Inl e \<Rightarrow> Inl e
           | Inr bg_count' \<Rightarrow> bg_count_loop self hypotheses ss bg_count'))"

fun sample_count_loop ::
  "AssociationSet \<Rightarrow> SubjectID list \<Rightarrow> (TermID \<rightharpoonup> int) \<Rightarrow> error + (TermID \<rightharpoonup> int)" where
  "sample_count_loop self [] sample_count = Inr sample_count"
| "sample_count_loop self (s # ss) sample_count =
     (case inferred_types self s of
        Inl e \<Rightarrow> Inl e
      | Inr ancs \<Rightarrow>
          (case count_incr_loop (sorted_list_of_fset ancs) sample_count of
             Inl e \<Rightarrow> Inl e
           | Inr sample_count' \<Rightarrow> sample_count_loop self ss sample_count'))"

text \<open>
  The values \<^verbatim>\<open>enrichment_test\<close> has computed when it reaches line 209: the hypotheses, the
  background extended by the sample, the two sizes and the two count dictionaries.
\<close>

record Counts =
  cs_hypotheses :: "TermID fset"
  cs_background :: "SubjectID fset"
  cs_sample_size :: int
  cs_bg_size :: int
  cs_bg_count :: "TermID \<rightharpoonup> int"
  cs_sample_count :: "TermID \<rightharpoonup> int"

text \<open>
  Lines 177-207 of \<^verbatim>\<open>enrichment_test\<close>. The argument \<^verbatim>\<open>subjects\<close> is written \<open>subjs\<close>
  (the field of the same name is \<^verbatim>\<open>self.subjects\<close>); \<^verbatim>\<open>background=None\<close> is \<open>None\<close>.
\<close>

definition enrichment_counts ::
  "AssociationSet \<Rightarrow> SubjectID list \<Rightarrow> SubjectID list option \<Rightarrow> error + Counts" where
  "enrichment_counts self subjs background =
     (let subjs' = fset_of_list subjs;
          sample_size = int (fcard subjs')
      in case hypotheses_loop self (sorted_list_of_fset subjs') {||} of
           Inl e \<Rightarrow> Inl e
         | Inr hypotheses \<Rightarrow>
             (let background' =
                    (case background of
                       None \<Rightarrow> fset_of_list (subjects self)
                     | Some bg \<Rightarrow> fset_of_list bg);
                  background'' = background' |\<union>| subjs';
                  bg_size = int (fcard background'');
                  (bg_count, sample_count) =
                    counts_init_loop (sorted_list_of_fset hypotheses) (Map.empty, Map.empty)
              in case bg_count_loop self hypotheses (sorted_list_of_fset background'') bg_count of
                   Inl e \<Rightarrow> Inl e
                 | Inr bg_count' \<Rightarrow>
                     (case sample_count_loop self (sorted_list_of_fset subjs') sample_count of
                        Inl e \<Rightarrow> Inl e
                      | Inr sample_count' \<Rightarrow>
                          Inr \<lparr>cs_hypotheses = hypotheses, cs_background = background'',
                               cs_sample_size = sample_size, cs_bg_size = bg_size,
                               cs_bg_count = bg_count', cs_sample_count = sample_count'\<rparr>)))"

text \<open>
  Line 209, the comprehension \<^verbatim>\<open>[x for x in hypotheses if bg_count[x] > 1]\<close>.
\<close>

fun filter_hypotheses :: "TermID list \<Rightarrow> (TermID \<rightharpoonup> int) \<Rightarrow> error + TermID list" where
  "filter_hypotheses [] bg_count = Inr []"
| "filter_hypotheses (x # xs) bg_count =
     (case bg_count x of
        None \<Rightarrow> Inl KeyError
      | Some n \<Rightarrow>
          (case filter_hypotheses xs bg_count of
             Inl e \<Rightarrow> Inl e
           | Inr kept \<Rightarrow> Inr (if n > 1 then x # kept else kept)))"

text \<open>Lines 225-228: the four cells of the contingency table of a class.\<close>

definition contingency :: "Counts \<Rightarrow> TermID \<Rightarrow> error + (int \<times> int \<times> int \<times> int)" where
  "contingency cs cls =
     (case cs_sample_count cs cls of
        None \<Rightarrow> Inl KeyError
      | Some a \<Rightarrow>
          (let b = cs_sample_size cs - a
           in case cs_bg_count cs cls of
                None \<Rightarrow> Inl KeyError
              | Some n \<Rightarrow>
                  (let c = n - a;
                       d = (cs_bg_size cs - n) - b
                   in Inr (a, b, c, d))))"

text \<open>
  The loop of lines 214-239. \<^verbatim>\<open>scipy.stats.fisher_exact\<close> is not part of the module: it is the
  parameter \<open>fisher_exact\<close>, which gives the p-value of a table for a direction.
\<close>

fun enrichment_loop ::
  "(int list list \<Rightarrow> string \<Rightarrow> real) \<Rightarrow> AssociationSet \<Rightarrow> Counts \<Rightarrow> int \<Rightarrow> real \<Rightarrow> bool \<Rightarrow> string
     \<Rightarrow> TermID list \<Rightarrow> EnrichmentResult list \<Rightarrow> error + EnrichmentResult list" where
  "enrichment_loop fisher_exact self cs num_hypotheses threshold labels direction [] results =
     Inr results"
| "enrichment_loop fisher_exact self cs num_hypotheses threshold labels direction (cls # rest) results =
     (case contingency cs cls of
        Inl e \<Rightarrow> Inl e
      | Inr (a, b, c, d) \<Rightarrow>
          (let p_uncorrected = fisher_exact [[a, b], [c, d]] direction;
               p = p_uncorrected * of_int num_hypotheses;
               p' = (if p > 1 then 1 else p)
           in if p' < threshold then
                enrichment_loop fisher_exact self cs num_hypotheses threshold labels direction rest
                  (results @
                     [\<lparr>enr_c = cls, enr_p = p', enr_p_uncorrected = p_uncorrected,
                       enr_n = (if labels then Some (label (ontology self) cls) else None)\<rparr>])
              else
                enrichment_loop fisher_exact self cs num_hypotheses threshold labels direction rest
                  results))"

text \<open>
  \<^verbatim>\<open>enrichment_test\<close> as a whole; \<^verbatim>\<open>sorted\<close> is a stable sort by the key \<^verbatim>\<open>'p'\<close>.
  Records with equal \<^verbatim>\<open>'p'\<close> keep the order in which the set of hypotheses was iterated,
  which the model takes ascending.
\<close>

definition enrichment_test ::
  "(int list list \<Rightarrow> string \<Rightarrow> real) \<Rightarrow> AssociationSet \<Rightarrow> SubjectID list \<Rightarrow> SubjectID list option
     \<Rightarrow> real \<Rightarrow> bool \<Rightarrow> string \<Rightarrow> error + EnrichmentResult list" where
  "enrichment_test fisher_exact self subjs background threshold labels direction =
     (case enrichment_counts self subjs background of
        Inl e \<Rightarrow> Inl e
      | Inr cs \<Rightarrow>
          (case filter_hypotheses (sorted_list_of_fset (cs_hypotheses cs)) (cs_bg_count cs) of
             Inl e \<Rightarrow> Inl e
           | Inr hypotheses \<Rightarrow>
               (let num_hypotheses = int (length hypotheses)
                in case enrichment_loop fisher_exact self cs num_hypotheses threshold labels
                          direction hypotheses [] of
                     Inl e \<Rightarrow> Inl e
                   | Inr results \<Rightarrow> Inr (sort_key enr_p results))))"

section \<open>Notions used in the statements\<close>

text \<open>
  The closure stored for a subject in the closure map; the empty set when none is stored.
\<close>

definition closure_of :: "AssociationSet \<Rightarrow> SubjectID \<Rightarrow> TermID fset" where
  "closure_of self s =
     (case subject_to_inferred_map self s of Some ancs \<Rightarrow> ancs | None \<Rightarrow> {||})"

text \<open>
  The example of the specification: the ontology \<open>A \<rightarrow> B \<rightarrow> C\<close> and the subjects
  \<open>g1:[A]\<close>, \<open>g2:[A]\<close>, \<open>g3:[B]\<close>.
\<close>

definition example_ontology :: Ontology where
  "example_ontology =
     \<lparr>ancestors = (\<lambda>t. if t = ''A'' then fset_of_list [''B'', ''C'']
                        else if t = ''B'' then fset_of_list [''C''] else fset_of_list []),
      label = (\<lambda>t. None)\<rparr>"

definition example_map :: "(SubjectID \<times> TermID list) list" where
  "example_map = [(''g1'', [''A'']), (''g2'', [''A'']), (''g3'', [''B''])]"

definition example_set :: AssociationSet where
  "example_set = AssociationSet_init example_ontology example_map"

text \<open>
  The set of indexed subjects whose closure contains a term, the record of a pair of terms
  and the list of the records of the pairs \<open>x < y\<close> of a list of terms, in the order of the
  two nested loops.
\<close>

definition subjects_of :: "AssociationSet \<Rightarrow> TermID \<Rightarrow> SubjectID fset" where
  "subjects_of self z = fset_of_list (filter (\<lambda>s. z |\<in>| closure_of self s) (subjects self))"

definition pair_record :: "AssociationSet \<Rightarrow> TermID \<Rightarrow> TermID \<Rightarrow> IntersectionResult" where
  "pair_record self x y =
     \<lparr>res_x = x, res_y = y, res_shared = subjects_of self x |\<inter>| subjects_of self y,
      res_c = int (fcard (subjects_of self x |\<inter>| subjects_of self y))\<rparr>"

definition pair_records :: "AssociationSet \<Rightarrow> TermID list \<Rightarrow> IntersectionResult list" where
  "pair_records self x_terms =
     concat (map (\<lambda>x. map (pair_record self x) (filter (\<lambda>y. x < y) x_terms)) x_terms)"

text \<open>
  The number of members of a set of subjects whose closure contains a term, and the union of
  the closures of a set of subjects.
\<close>

definition term_count :: "AssociationSet \<Rightarrow> SubjectID fset \<Rightarrow> TermID \<Rightarrow> int" where
  "term_count self S z = int (fcard (ffilter (\<lambda>s. z |\<in>| closure_of self s) S))"

definition closure_union :: "AssociationSet \<Rightarrow> SubjectID fset \<Rightarrow> TermID fset" where
  "closure_union self S = ffUnion (closure_of self |`| S)"

text \<open>
  The background \<^verbatim>\<open>enrichment_test\<close> works with: the given one, or all indexed subjects when
  none is given, extended by the sample. \<open>expected_counts\<close> are the values lines 177-207
  are meant to compute from it.
\<close>

definition effective_background ::
  "AssociationSet \<Rightarrow> SubjectID list \<Rightarrow> SubjectID list option \<Rightarrow> SubjectID fset" where
  "effective_background self subjs background =
     (case background of None \<Rightarrow> fset_of_list (subjects self) | Some bg \<Rightarrow> fset_of_list bg)
       |\<union>| fset_of_list subjs"

definition expected_counts ::
  "AssociationSet \<Rightarrow> SubjectID list \<Rightarrow> SubjectID list option \<Rightarrow> Counts" where
  "expected_counts self subjs background =
     \<lparr>cs_hypotheses = closure_union self (fset_of_list subjs),
      cs_background = effective_background self subjs background,
      cs_sample_size = int (fcard (fset_of_list subjs)),
      cs_bg_size = int (fcard (effective_background self subjs background)),
      cs_bg_count =
        (\<lambda>z. if z |\<in>| closure_union self (fset_of_list subjs)
             then Some (term_count self (effective_background self subjs background) z)
             else None),
      cs_sample_count =
        (\<lambda>z. if z |\<in>| closure_union self (fset_of_list subjs)
             then Some (term_count self (fset_of_list subjs) z)
             else None)\<rparr>"

text \<open>
  A stand-in for the exact test in the examples: it gives the p-value \<open>1/100\<close> for every
  table and direction.
\<close>

definition example_test :: "int list list \<Rightarrow> string \<Rightarrow> real" where
  "example_test table direction = 1 / 100"

section \<open>Indexing: the closure map after construction\<close>

lemma termset_ancestors_reflexive: "fset_of_list terms |\<subseteq>| termset_ancestors self terms"
  by (simp add: termset_ancestors_def)

lemma termset_ancestors_map_update [simp]:
  "termset_ancestors (self\<lparr>subject_to_inferred_map := m\<rparr>) terms = termset_ancestors self terms"
  by (simp add: termset_ancestors_def)

lemma index_loop_fields [simp]:
  "ontology (index_loop self items) = ontology self"
  "association_map (index_loop self items) = association_map self"
  "strict (index_loop self items) = strict self"
  "subjects (index_loop self items) = subjects self"
  by (induction self items rule: index_loop.induct) simp_all

lemma index_loop_map:
  "subject_to_inferred_map (index_loop self items) s =
     (case map_of (rev items) s of
        Some terms \<Rightarrow> Some (termset_ancestors self terms)
      | None \<Rightarrow> subject_to_inferred_map self s)"
  by (induction self items rule: index_loop.induct) (auto split: option.splits)

lemma index_loop_dom:
  "dom (subject_to_inferred_map (index_loop self items)) =
     dom (subject_to_inferred_map self) \<union> fst ` set items"
  by (induction self items rule: index_loop.induct) auto

lemma init_fields [simp]:
  "subjects (AssociationSet_init ont amap) = map fst amap"
  "ontology (AssociationSet_init ont amap) = ont"
  "association_map (AssociationSet_init ont amap) = amap"
  "strict (AssociationSet_init ont amap) = False"
  by (simp_all add: AssociationSet_init_def index_def)

lemma init_map:
  "subject_to_inferred_map (AssociationSet_init ont amap) s =
     map_option (\<lambda>terms. termset_ancestors_loop ont terms {||} |\<union>| fset_of_list terms)
       (map_of (rev amap) s)"
  by (simp add: AssociationSet_init_def index_def index_loop_map termset_ancestors_def
      split: option.splits)

lemma init_dom:
  "dom (subject_to_inferred_map (AssociationSet_init ont amap)) = fst ` set amap"
  by (simp add: AssociationSet_init_def index_def index_loop_dom)

lemma init_indexed:
  assumes "s \<in> set (subjects (AssociationSet_init ont amap))"
  shows "subject_to_inferred_map (AssociationSet_init ont amap) s \<noteq> None"
  using assms init_dom [of ont amap] by (auto simp: dom_def)

lemma map_of_rev_distinct:
  assumes "distinct (map fst items)" and "(k, v) \<in> set items"
  shows "map_of (rev items) k = Some v"
proof -
  have "distinct (map fst (rev items))"
    using assms(1) by (simp add: rev_map [symmetric])
  moreover have "(k, v) \<in> set (rev items)"
    using assms(2) by simp
  ultimately show ?thesis by (rule map_of_is_SomeI)
qed

text \<open>
  C2. After construction, the closure stored for a subject of the association map contains
  every term the map annotates the subject with directly, whatever the ontology and the map
  (a dictionary: its keys are distinct).
\<close>

theorem closure_contains_direct:
  assumes "distinct (map fst amap)" and "(s, terms) \<in> set amap"
  shows "\<exists>ancs. subject_to_inferred_map (AssociationSet_init ont amap) s = Some ancs
           \<and> inferred_types (AssociationSet_init ont amap) s = Inr ancs
           \<and> fset_of_list terms |\<subseteq>| ancs"
proof -
  have "map_of (rev amap) s = Some terms"
    using assms by (rule map_of_rev_distinct)
  then have "subject_to_inferred_map (AssociationSet_init ont amap) s =
      Some (termset_ancestors_loop ont terms {||} |\<union>| fset_of_list terms)"
    by (simp add: init_map)
  then show ?thesis
    by (simp add: inferred_types_def)
qed

theorem closure_contains_direct_witness:
  "distinct (map fst example_map) \<and> (''g1'', [''A'']) \<in> set example_map
   \<and> (\<exists>ancs. subject_to_inferred_map (AssociationSet_init example_ontology example_map) ''g1''
               = Some ancs
             \<and> inferred_types (AssociationSet_init example_ontology example_map) ''g1'' = Inr ancs
             \<and> fset_of_list [''A''] |\<subseteq>| ancs)"
proof -
  have d: "distinct (map fst example_map)"
    by (simp add: example_map_def)
  have m: "(''g1'', [''A'']) \<in> set example_map"
    by (simp add: example_map_def)
  show ?thesis
    using d m closure_contains_direct [OF d m, of example_ontology] by simp
qed

section \<open>Closure lookup: the three branches\<close>

lemma inferred_types_stored:
  "subject_to_inferred_map self s = Some ancs \<Longrightarrow> inferred_types self s = Inr ancs"
  by (simp add: inferred_types_def)

lemma inferred_types_lenient:
  "\<not> strict self \<Longrightarrow> inferred_types self s = Inr (closure_of self s)"
  by (simp add: inferred_types_def closure_of_def split: option.splits)

lemma inferred_types_present:
  "subject_to_inferred_map self s \<noteq> None \<Longrightarrow> inferred_types self s = Inr (closure_of self s)"
  by (auto simp: inferred_types_def closure_of_def)

lemma inferred_types_Inr:
  "inferred_types self s = Inr ancs \<Longrightarrow> ancs = closure_of self s"
  by (auto simp: inferred_types_def closure_of_def split: option.splits if_splits)

lemma closure_of_strict_update [simp]:
  "closure_of (self\<lparr>strict := b\<rparr>) s = closure_of self s"
  by (simp add: closure_of_def)

lemma init_lookup:
  assumes "s \<in> set (subjects (AssociationSet_init ont amap))"
  shows "inferred_types ((AssociationSet_init ont amap)\<lparr>strict := b\<rparr>) s =
           Inr (closure_of (AssociationSet_init ont amap) s)"
proof -
  have "subject_to_inferred_map ((AssociationSet_init ont amap)\<lparr>strict := b\<rparr>) s \<noteq> None"
    using init_indexed [OF assms] by simp
  then show ?thesis
    using inferred_types_present by fastforce
qed

text \<open>
  C4 (the strict branch). With strict mode on, a lookup of a subject that is not in the
  closure map ends in \<^verbatim>\<open>TypeError\<close>, raised by the call of the exception class, and not in
  \<^verbatim>\<open>UnknownSubjectException\<close>. Evaluated on the example with the unknown subject \<open>g9\<close>.
\<close>

theorem inferred_types_strict_unknown:
  "subject_to_inferred_map (example_set\<lparr>strict := True\<rparr>) ''g9'' = None
   \<and> inferred_types (example_set\<lparr>strict := True\<rparr>) ''g9'' = Inl TypeError
   \<and> inferred_types (example_set\<lparr>strict := True\<rparr>) ''g9'' \<noteq> Inl (UnknownSubjectException ''g9'')"
  by (simp add: inferred_types_def example_set_def init_map example_map_def)

section \<open>Boolean query: the subjects returned\<close>

lemma fcard_inter_eq_iff: "fcard (A |\<inter>| B) = fcard A \<longleftrightarrow> A |\<subseteq>| B"
proof
  assume "fcard (A |\<inter>| B) = fcard A"
  then have "A |\<inter>| B = A" by (intro fcard_seteq) auto
  then show "A |\<subseteq>| B" by auto
next
  assume "A |\<subseteq>| B"
  then have "A |\<inter>| B = A" by auto
  then show "fcard (A |\<inter>| B) = fcard A" by simp
qed

lemma query_loop_filter:
  assumes "\<forall>s \<in> set ss. inferred_types self s = Inr (closure_of self s)"
  shows "query_loop self termset negated (fcard termset) ss matches =
     Inr (matches @ filter (\<lambda>s. termset |\<subseteq>| closure_of self s
                               \<and> negated |\<inter>| closure_of self s = {||}) ss)"
  using assms
  by (induction ss arbitrary: matches) (simp_all add: fcard_inter_eq_iff)

lemma query_init:
  "query ((AssociationSet_init ont amap)\<lparr>strict := b\<rparr>) terms negated_terms =
     Inr (filter (\<lambda>s. fset_of_list terms |\<subseteq>| closure_of (AssociationSet_init ont amap) s
                      \<and> fset_of_list negated_terms |\<inter>| closure_of (AssociationSet_init ont amap) s = {||})
            (subjects (AssociationSet_init ont amap)))"
proof -
  let ?A = "(AssociationSet_init ont amap)\<lparr>strict := b\<rparr>"
  have "\<forall>s \<in> set (subjects ?A). inferred_types ?A s = Inr (closure_of ?A s)"
    using init_lookup [where ont = ont and amap = amap and b = b] by simp
  then show ?thesis
    unfolding query_def Let_def using query_loop_filter [where ss = "subjects ?A" and self = ?A and matches = "[]"] by simp
qed

text \<open>
  C1. On a constructed association set, in either mode, \<^verbatim>\<open>query\<close> returns the indexed
  subjects whose closure contains every include term and no exclude term, in the order of
  \<^verbatim>\<open>self.subjects\<close>; with no include and no exclude term it returns all of them.
\<close>

theorem query_correct:
  "query ((AssociationSet_init ont amap)\<lparr>strict := b\<rparr>) terms negated_terms =
     Inr (filter (\<lambda>s. fset_of_list terms |\<subseteq>| closure_of (AssociationSet_init ont amap) s
                      \<and> fset_of_list negated_terms |\<inter>| closure_of (AssociationSet_init ont amap) s = {||})
            (subjects (AssociationSet_init ont amap)))
   \<and> query ((AssociationSet_init ont amap)\<lparr>strict := b\<rparr>) [] [] =
       Inr (subjects (AssociationSet_init ont amap))"
  by (simp add: query_init)

theorem query_correct_witness:
  "query example_set [''B''] [''A''] = Inr [''g3'']
   \<and> query example_set [] [] = Inr [''g1'', ''g2'', ''g3'']"
proof -
  have s: "example_set\<lparr>strict := False\<rparr> = example_set"
    by (simp add: example_set_def)
  have c: "closure_of example_set ''g1'' = fset_of_list [''A'', ''B'', ''C'']"
     "closure_of example_set ''g2'' = fset_of_list [''A'', ''B'', ''C'']"
     "closure_of example_set ''g3'' = fset_of_list [''B'', ''C'']"
    by (simp_all add: closure_of_def example_set_def init_map example_map_def
        example_ontology_def)
  have subj: "subjects example_set = [''g1'', ''g2'', ''g3'']"
    by (simp add: example_set_def example_map_def)
  have "query (example_set\<lparr>strict := False\<rparr>) [''B''] [''A''] =
      Inr (filter (\<lambda>s. fset_of_list [''B''] |\<subseteq>| closure_of example_set s
                       \<and> fset_of_list [''A''] |\<inter>| closure_of example_set s = {||})
             (subjects example_set))
    \<and> query (example_set\<lparr>strict := False\<rparr>) [] [] = Inr (subjects example_set)"
    unfolding example_set_def
    by (rule query_correct [where ont = example_ontology and amap = example_map and b = False
        and terms = "[''B'']" and negated_terms = "[''A'']"])
  then show ?thesis
    unfolding s subj by (simp add: c)
qed

text \<open>
  C10. After construction every subject of \<^verbatim>\<open>self.subjects\<close> has an entry in the closure
  map, so its lookup returns that entry in strict mode too, and \<^verbatim>\<open>query\<close> returns a list
  for every pair of arguments in either mode.
\<close>

theorem indexed_subjects_lookup:
  "(\<forall>s \<in> set (subjects (AssociationSet_init ont amap)).
      \<exists>ancs. subject_to_inferred_map (AssociationSet_init ont amap) s = Some ancs
        \<and> inferred_types ((AssociationSet_init ont amap)\<lparr>strict := True\<rparr>) s = Inr ancs)
   \<and> (\<exists>matches. query ((AssociationSet_init ont amap)\<lparr>strict := b\<rparr>) terms negated_terms
         = Inr matches)"
proof
  show "\<forall>s \<in> set (subjects (AssociationSet_init ont amap)).
      \<exists>ancs. subject_to_inferred_map (AssociationSet_init ont amap) s = Some ancs
        \<and> inferred_types ((AssociationSet_init ont amap)\<lparr>strict := True\<rparr>) s = Inr ancs"
  proof
    fix s assume "s \<in> set (subjects (AssociationSet_init ont amap))"
    then obtain ancs where "subject_to_inferred_map (AssociationSet_init ont amap) s = Some ancs"
      using init_indexed by blast
    then show "\<exists>ancs. subject_to_inferred_map (AssociationSet_init ont amap) s = Some ancs
        \<and> inferred_types ((AssociationSet_init ont amap)\<lparr>strict := True\<rparr>) s = Inr ancs"
      by (simp add: inferred_types_def)
  qed
  show "\<exists>matches. query ((AssociationSet_init ont amap)\<lparr>strict := b\<rparr>) terms negated_terms
         = Inr matches"
    by (simp add: query_init)
qed

theorem indexed_subjects_lookup_witness:
  "''g3'' \<in> set (subjects (AssociationSet_init example_ontology example_map))
   \<and> (\<exists>ancs. subject_to_inferred_map (AssociationSet_init example_ontology example_map) ''g3''
               = Some ancs
        \<and> inferred_types ((AssociationSet_init example_ontology example_map)\<lparr>strict := True\<rparr>)
             ''g3'' = Inr ancs)
   \<and> (\<exists>matches. query ((AssociationSet_init example_ontology example_map)\<lparr>strict := True\<rparr>)
         [''A''] [''Z''] = Inr matches)"
proof -
  have m: "''g3'' \<in> set (subjects (AssociationSet_init example_ontology example_map))"
    by (simp add: example_map_def)
  show ?thesis
    using m indexed_subjects_lookup [where ont = example_ontology and amap = example_map
        and b = True and terms = "[''A'']" and negated_terms = "[''Z'']"]
    by blast
qed

section \<open>Jaccard similarity: value and bounds\<close>

lemma jaccard_value:
  assumes "inferred_types self s1 = Inr a1" and "inferred_types self s2 = Inr a2"
  shows "jaccard_similarity self s1 s2 =
           Inr (if a1 |\<union>| a2 = {||} then 0
                else real (fcard (a1 |\<inter>| a2)) / real (fcard (a1 |\<union>| a2)))"
  using assms by (simp add: jaccard_similarity_def Let_def)

lemma jaccard_ratio_bounds:
  "0 \<le> real (fcard (a1 |\<inter>| a2)) / real (fcard (a1 |\<union>| a2))"
  "real (fcard (a1 |\<inter>| a2)) / real (fcard (a1 |\<union>| a2)) \<le> 1"
proof -
  show "0 \<le> real (fcard (a1 |\<inter>| a2)) / real (fcard (a1 |\<union>| a2))"
    by simp
  have "fcard (a1 |\<inter>| a2) \<le> fcard (a1 |\<union>| a2)"
    by (rule fcard_mono) auto
  then have le: "real (fcard (a1 |\<inter>| a2)) \<le> real (fcard (a1 |\<union>| a2))"
    by simp
  show "real (fcard (a1 |\<inter>| a2)) / real (fcard (a1 |\<union>| a2)) \<le> 1"
  proof (cases "fcard (a1 |\<union>| a2) = 0")
    case True
    then show ?thesis by simp
  next
    case False
    then have "0 < real (fcard (a1 |\<union>| a2))" by linarith
    then show ?thesis using le by (simp only: divide_le_eq_1_pos)
  qed
qed

text \<open>
  C5. When the two closure lookups return \<open>a1\<close> and \<open>a2\<close> (they always do in the default,
  lenient mode), \<^verbatim>\<open>jaccard_similarity\<close> returns the size of the intersection over the size
  of the union, or 0 when the union is empty, that is when both closures are empty; the
  value lies between 0 and 1, and it is 1 for a subject with itself when its closure is not
  empty.
\<close>

theorem jaccard_correct:
  assumes "inferred_types self s1 = Inr a1" and "inferred_types self s2 = Inr a2"
  shows "\<exists>j. jaccard_similarity self s1 s2 = Inr j
           \<and> j = (if a1 |\<union>| a2 = {||} then 0
                  else real (fcard (a1 |\<inter>| a2)) / real (fcard (a1 |\<union>| a2)))
           \<and> (a1 = {||} \<and> a2 = {||} \<longrightarrow> j = 0)
           \<and> 0 \<le> j \<and> j \<le> 1
           \<and> (s1 = s2 \<and> a1 \<noteq> {||} \<longrightarrow> j = 1)"
proof -
  let ?j = "if a1 |\<union>| a2 = {||} then 0
            else real (fcard (a1 |\<inter>| a2)) / real (fcard (a1 |\<union>| a2))"
  have v: "jaccard_similarity self s1 s2 = Inr ?j"
    using assms by (rule jaccard_value)
  have e: "a1 = {||} \<and> a2 = {||} \<longrightarrow> ?j = 0"
    by simp
  have b: "0 \<le> ?j \<and> ?j \<le> 1"
    using jaccard_ratio_bounds [of a1 a2] by simp
  have r: "s1 = s2 \<and> a1 \<noteq> {||} \<longrightarrow> ?j = 1"
  proof
    assume h: "s1 = s2 \<and> a1 \<noteq> {||}"
    then have "a2 = a1" using assms by simp
    moreover have "fcard a1 \<noteq> 0" using h by simp
    ultimately show "?j = 1" using h by simp
  qed
  show ?thesis
    using v e b r by blast
qed

theorem jaccard_correct_witness:
  "inferred_types example_set ''g1'' = Inr (fset_of_list [''A'', ''B'', ''C''])
   \<and> inferred_types example_set ''g3'' = Inr (fset_of_list [''B'', ''C''])
   \<and> jaccard_similarity example_set ''g1'' ''g3'' = Inr (2 / 3)
   \<and> jaccard_similarity example_set ''g1'' ''g1'' = Inr 1"
proof -
  have a1: "inferred_types example_set ''g1'' = Inr (fset_of_list [''A'', ''B'', ''C''])"
    by (simp add: inferred_types_def example_set_def init_map example_map_def
        example_ontology_def)
  have a3: "inferred_types example_set ''g3'' = Inr (fset_of_list [''B'', ''C''])"
    by (simp add: inferred_types_def example_set_def init_map example_map_def
        example_ontology_def)
  have i: "fset_of_list [''A'', ''B'', ''C''] |\<inter>| fset_of_list [''B'', ''C'']
             = fset_of_list [''B'', ''C'']"
    and u: "fset_of_list [''A'', ''B'', ''C''] |\<union>| fset_of_list [''B'', ''C'']
             = fset_of_list [''A'', ''B'', ''C'']"
    by auto
  have n: "fcard (fset_of_list [''B'', ''C'']) = 2" "fcard (fset_of_list [''A'', ''B'', ''C'']) = 3"
    by (simp_all add: fcard_finsert_if)
  have "jaccard_similarity example_set ''g1'' ''g3'' = Inr (2 / 3)"
    using jaccard_correct [OF a1 a3] unfolding i u n by auto
  moreover have "jaccard_similarity example_set ''g1'' ''g1'' = Inr 1"
    using jaccard_correct [OF a1 a1] by auto
  ultimately show ?thesis
    using a1 a3 by simp
qed

section \<open>Pairwise intersections: the records returned\<close>

lemma inferred_types_cases:
  "inferred_types self s = Inr (closure_of self s) \<or> inferred_types self s = Inl TypeError"
  by (simp add: inferred_types_def closure_of_def split: option.splits)

lemma distinct_sorted_list_of_fset [simp]: "distinct (sorted_list_of_fset S)"
  by (simp add: sorted_list_of_fset.rep_eq)

lemma gmap_init_eq: "gmap_init zs gmap = (\<lambda>z. if z \<in> set zs then Some [] else gmap z)"
  by (induction zs arbitrary: gmap) (auto simp: fun_eq_iff)

lemma gmap_append_loop_eq:
  assumes "distinct as" and "set as \<subseteq> dom gmap"
  shows "gmap_append_loop as subj gmap =
     Inr (\<lambda>z. if z \<in> set as then map_option (\<lambda>l. l @ [subj]) (gmap z) else gmap z)"
  using assms
proof (induction as arbitrary: gmap)
  case Nil
  then show ?case by simp
next
  case (Cons a as)
  then obtain l where l: "gmap a = Some l" by auto
  have d: "distinct as" and n: "a \<notin> set as"
    using Cons.prems by auto
  have s: "set as \<subseteq> dom (gmap(a \<mapsto> l @ [subj]))"
    using Cons.prems by auto
  have "gmap_append_loop as subj (gmap(a \<mapsto> l @ [subj])) =
      Inr (\<lambda>z. if z \<in> set as then map_option (\<lambda>l. l @ [subj]) ((gmap(a \<mapsto> l @ [subj])) z)
               else (gmap(a \<mapsto> l @ [subj])) z)"
    using d s by (rule Cons.IH)
  also have "(\<lambda>z. if z \<in> set as then map_option (\<lambda>l. l @ [subj]) ((gmap(a \<mapsto> l @ [subj])) z)
               else (gmap(a \<mapsto> l @ [subj])) z) =
      (\<lambda>z. if z \<in> set (a # as) then map_option (\<lambda>l. l @ [subj]) (gmap z) else gmap z)"
    using n l by (auto simp: fun_eq_iff)
  finally have f: "gmap_append_loop as subj (gmap(a \<mapsto> l @ [subj])) =
      Inr (\<lambda>z. if z \<in> set (a # as) then map_option (\<lambda>l. l @ [subj]) (gmap z) else gmap z)" .
  show ?case
    by (simp only: gmap_append_loop.simps l option.case f)
qed

lemma gmap_subjects_loop_eq:
  assumes "fset zset \<subseteq> dom gmap"
  shows "gmap_subjects_loop self zset ss gmap =
     (if \<forall>s \<in> set ss. inferred_types self s = Inr (closure_of self s)
      then Inr (\<lambda>z. if z |\<in>| zset
                     then map_option (\<lambda>l. l @ filter (\<lambda>s. z |\<in>| closure_of self s) ss) (gmap z)
                     else gmap z)
      else Inl TypeError)"
  using assms
proof (induction ss arbitrary: gmap)
  case Nil
  then show ?case by (auto simp: fun_eq_iff map_option.identity option.map_ident)
next
  case (Cons subj rest)
  show ?case
  proof (cases "inferred_types self subj = Inr (closure_of self subj)")
    case False
    then have "inferred_types self subj = Inl TypeError"
      using inferred_types_cases [of self subj] by simp
    then show ?thesis by simp
  next
    case True
    let ?as = "sorted_list_of_fset (closure_of self subj |\<inter>| zset)"
    let ?g1 = "\<lambda>z. if z \<in> set ?as then map_option (\<lambda>l. l @ [subj]) (gmap z) else gmap z"
    have a: "gmap_append_loop ?as subj gmap = Inr ?g1"
      using Cons.prems by (intro gmap_append_loop_eq) auto
    have d: "fset zset \<subseteq> dom ?g1"
      using Cons.prems by (auto simp: dom_def)
    show ?thesis
      using True a Cons.IH [OF d]
      by (auto simp: fun_eq_iff map_option.compositionality comp_def option.map_comp)
  qed
qed


lemma gmap_to_sets_eq:
  assumes "set zs \<subseteq> dom gmap"
  shows "gmap_to_sets zs gmap smap =
     Inr (\<lambda>z. if z \<in> set zs then map_option fset_of_list (gmap z) else smap z)"
  using assms
proof (induction zs arbitrary: smap)
  case Nil
  then show ?case by simp
next
  case (Cons z zs)
  then obtain l where l: "gmap z = Some l" by auto
  have s: "set zs \<subseteq> dom gmap"
    using Cons.prems by simp
  have "gmap_to_sets zs gmap (smap(z \<mapsto> fset_of_list l)) =
      Inr (\<lambda>z'. if z' \<in> set zs then map_option fset_of_list (gmap z')
                else (smap(z \<mapsto> fset_of_list l)) z')"
    using s by (rule Cons.IH)
  also have "(\<lambda>z'. if z' \<in> set zs then map_option fset_of_list (gmap z')
                else (smap(z \<mapsto> fset_of_list l)) z') =
      (\<lambda>z'. if z' \<in> set (z # zs) then map_option fset_of_list (gmap z') else smap z')"
    using l by (auto simp: fun_eq_iff)
  finally have f: "gmap_to_sets zs gmap (smap(z \<mapsto> fset_of_list l)) =
      Inr (\<lambda>z'. if z' \<in> set (z # zs) then map_option fset_of_list (gmap z') else smap z')" .
  show ?case
    by (simp only: gmap_to_sets.simps l option.case f)
qed

lemma intersections_inner_eq:
  assumes "x |\<in>| zset" and "set ys \<subseteq> fset zset"
  shows "intersections_inner (\<lambda>z. if z |\<in>| zset then Some (subjects_of self z) else None)
           x ys ilist =
         Inr (ilist @ map (pair_record self x) (filter (\<lambda>y. x < y) ys))"
  using assms
  by (induction ys arbitrary: ilist) (simp_all add: pair_record_def Let_def)

lemma intersections_outer_eq:
  assumes "set xs \<subseteq> fset zset" and "set x_terms \<subseteq> fset zset"
  shows "intersections_outer (\<lambda>z. if z |\<in>| zset then Some (subjects_of self z) else None)
           xs x_terms ilist =
         Inr (ilist @ concat (map (\<lambda>x. map (pair_record self x) (filter (\<lambda>y. x < y) x_terms)) xs))"
  using assms
proof (induction xs arbitrary: ilist)
  case Nil
  then show ?case by simp
next
  case (Cons x xs)
  have x: "x |\<in>| zset" and xs: "set xs \<subseteq> fset zset"
    using Cons.prems(1) by auto
  show ?case
    using intersections_inner_eq [OF x Cons.prems(2), of self ilist] Cons.IH [OF xs Cons.prems(2)]
    by simp
qed

lemma query_intersections_eq:
  "query_intersections self x_terms y_terms =
     (if \<forall>s \<in> set (subjects self). inferred_types self s = Inr (closure_of self s)
      then Inr (pair_records self x_terms) else Inl TypeError)"
proof -
  let ?zset = "fset_of_list x_terms |\<union>| fset_of_list y_terms"
  let ?g0 = "gmap_init (sorted_list_of_fset ?zset) Map.empty"
  let ?g1 = "\<lambda>z. if z |\<in>| ?zset
               then map_option (\<lambda>l. l @ filter (\<lambda>s. z |\<in>| closure_of self s) (subjects self)) (?g0 z)
               else ?g0 z"
  let ?G = "\<lambda>z. if z |\<in>| ?zset then Some (subjects_of self z) else None"
  have g0: "?g0 = (\<lambda>z. if z |\<in>| ?zset then Some [] else None)"
    by (simp add: gmap_init_eq)
  have d0: "fset ?zset \<subseteq> dom ?g0"
    unfolding g0 by (auto simp: dom_def)
  have l: "gmap_subjects_loop self ?zset (subjects self) ?g0 =
     (if \<forall>s \<in> set (subjects self). inferred_types self s = Inr (closure_of self s)
      then Inr ?g1 else Inl TypeError)"
    using d0 by (rule gmap_subjects_loop_eq)
  have d1: "set (sorted_list_of_fset ?zset) \<subseteq> dom ?g1"
    unfolding g0 by (auto simp: dom_def)
  have "gmap_to_sets (sorted_list_of_fset ?zset) ?g1 Map.empty =
      Inr (\<lambda>z. if z \<in> set (sorted_list_of_fset ?zset) then map_option fset_of_list (?g1 z)
               else None)"
    using d1 by (rule gmap_to_sets_eq)
  also have "(\<lambda>z. if z \<in> set (sorted_list_of_fset ?zset) then map_option fset_of_list (?g1 z)
               else None) = ?G"
    unfolding g0 by (auto simp: fun_eq_iff subjects_of_def)
  finally have t: "gmap_to_sets (sorted_list_of_fset ?zset) ?g1 Map.empty = Inr ?G" .
  have x: "set x_terms \<subseteq> fset ?zset"
    by (auto simp: fset_of_list.rep_eq)
  have o: "intersections_outer ?G x_terms x_terms [] = Inr (pair_records self x_terms)"
    using intersections_outer_eq [OF x x, of self "[]"] by (simp add: pair_records_def)
  show ?thesis
    unfolding query_intersections_def Let_def l
    by (simp only: t o sum.case if_distrib [of "case_sum _ _"] split: if_splits)
qed

lemma query_intersections_Inr:
  assumes "query_intersections self x_terms y_terms = Inr ilist"
  shows "ilist = pair_records self x_terms"
  using assms unfolding query_intersections_eq by (simp split: if_splits)

lemma query_intersections_init:
  "query_intersections ((AssociationSet_init ont amap)\<lparr>strict := b\<rparr>) x_terms y_terms =
     Inr (pair_records ((AssociationSet_init ont amap)\<lparr>strict := b\<rparr>) x_terms)"
proof -
  let ?A = "(AssociationSet_init ont amap)\<lparr>strict := b\<rparr>"
  have "\<forall>s \<in> set (subjects ?A). inferred_types ?A s = Inr (closure_of ?A s)"
    using init_lookup [where ont = ont and amap = amap and b = b] by simp
  then show ?thesis
    unfolding query_intersections_eq by simp
qed

lemma pair_records_member:
  assumes "r \<in> set (pair_records self x_terms)"
  shows "\<exists>x y. x \<in> set x_terms \<and> y \<in> set x_terms \<and> x < y \<and> r = pair_record self x y"
  using assms by (auto simp: pair_records_def)

lemma subjects_of_inter:
  "subjects_of self x |\<inter>| subjects_of self y =
     fset_of_list (filter (\<lambda>s. x |\<in>| closure_of self s \<and> y |\<in>| closure_of self s)
                     (subjects self))"
  by (auto simp: subjects_of_def fset_of_list.rep_eq)

lemma pairs_product:
  "concat (map (\<lambda>x. map (Pair x) (filter (P x) ys)) xs) =
     filter (\<lambda>(x, y). P x y) (List.product xs ys)"
  by (induction xs) (simp_all add: filter_map comp_def)

lemma pair_records_keys:
  "map (\<lambda>r. (res_x r, res_y r)) (pair_records self x_terms) =
     filter (\<lambda>(x, y). x < y) (List.product x_terms x_terms)"
proof -
  have "map (\<lambda>r. (res_x r, res_y r)) (pair_records self x_terms) =
      concat (map (\<lambda>x. map (Pair x) (filter (\<lambda>y. x < y) x_terms)) x_terms)"
    by (simp add: pair_records_def map_concat comp_def pair_record_def)
  then show ?thesis
    by (simp add: pairs_product)
qed

lemma pair_records_distinct:
  assumes "distinct x_terms"
  shows "distinct (map (\<lambda>r. {res_x r, res_y r}) (pair_records self x_terms))"
proof -
  let ?ps = "filter (\<lambda>(x, y). x < y) (List.product x_terms x_terms)"
  have d: "distinct ?ps"
    using assms by (simp add: distinct_product)
  have i: "inj_on (\<lambda>(x, y). {x, y}) (set ?ps)"
    by (auto simp: inj_on_def doubleton_eq_iff)
  have "distinct (map (\<lambda>(x, y). {x, y}) ?ps)"
    using d i by (simp add: distinct_map)
  moreover have "map (\<lambda>r. {res_x r, res_y r}) (pair_records self x_terms) =
      map (\<lambda>(x, y). {x, y}) (map (\<lambda>r. (res_x r, res_y r)) (pair_records self x_terms))"
    by simp
  ultimately show ?thesis
    by (simp only: pair_records_keys)
qed

text \<open>
  C6, as stated, fails on a list with a repeated term: for \<open>x_terms = [A, A, B]\<close> on the
  example the pair \<open>(A, B)\<close> is returned twice.
\<close>

theorem intersections_duplicate_pair:
  "query_intersections example_set [''A'', ''A'', ''B''] [] =
     Inr [\<lparr>res_x = ''A'', res_y = ''B'', res_shared = fset_of_list [''g1'', ''g2''], res_c = 2\<rparr>,
          \<lparr>res_x = ''A'', res_y = ''B'', res_shared = fset_of_list [''g1'', ''g2''], res_c = 2\<rparr>]"
  by code_simp

text \<open>
  C6, amended. Every record returned by \<^verbatim>\<open>query_intersections\<close> has \<open>x < y\<close>, its
  \<^verbatim>\<open>shared\<close> is the set of the indexed subjects whose closure contains both \<open>x\<close> and \<open>y\<close>,
  and its \<^verbatim>\<open>c\<close> is the size of \<^verbatim>\<open>shared\<close>; when \<open>x_terms\<close> has no repeated term, no
  unordered pair is returned twice.
\<close>

theorem intersections_records:
  assumes "query_intersections self x_terms y_terms = Inr ilist"
  shows "(\<forall>r \<in> set ilist.
            res_x r < res_y r
          \<and> res_shared r =
              fset_of_list (filter (\<lambda>s. res_x r |\<in>| closure_of self s
                                        \<and> res_y r |\<in>| closure_of self s) (subjects self))
          \<and> res_c r = int (fcard (res_shared r)))
       \<and> (distinct x_terms \<longrightarrow> distinct (map (\<lambda>r. {res_x r, res_y r}) ilist))"
proof -
  have il: "ilist = pair_records self x_terms"
    using assms by (rule query_intersections_Inr)
  have "\<forall>r \<in> set ilist.
            res_x r < res_y r
          \<and> res_shared r =
              fset_of_list (filter (\<lambda>s. res_x r |\<in>| closure_of self s
                                        \<and> res_y r |\<in>| closure_of self s) (subjects self))
          \<and> res_c r = int (fcard (res_shared r))"
  proof
    fix r assume "r \<in> set ilist"
    then obtain x y where "x < y" and "r = pair_record self x y"
      using pair_records_member il by blast
    then show "res_x r < res_y r
          \<and> res_shared r =
              fset_of_list (filter (\<lambda>s. res_x r |\<in>| closure_of self s
                                        \<and> res_y r |\<in>| closure_of self s) (subjects self))
          \<and> res_c r = int (fcard (res_shared r))"
      by (simp add: pair_record_def subjects_of_inter)
  qed
  then show ?thesis
    using il pair_records_distinct by simp
qed


theorem intersections_records_witness:
  "query_intersections example_set [''A'', ''B''] [''C''] = Inr [
       \<lparr>res_x = ''A'', res_y = ''B'', res_shared = fset_of_list [''g1'', ''g2''], res_c = 2\<rparr>]
   \<and> res_x 
       \<lparr>res_x = ''A'', res_y = ''B'', res_shared = fset_of_list [''g1'', ''g2''], res_c = 2\<rparr> < res_y 
       \<lparr>res_x = ''A'', res_y = ''B'', res_shared = fset_of_list [''g1'', ''g2''], res_c = 2\<rparr>
   \<and> res_shared 
       \<lparr>res_x = ''A'', res_y = ''B'', res_shared = fset_of_list [''g1'', ''g2''], res_c = 2\<rparr> =
       fset_of_list (filter (\<lambda>s. res_x 
       \<lparr>res_x = ''A'', res_y = ''B'', res_shared = fset_of_list [''g1'', ''g2''], res_c = 2\<rparr> |\<in>| closure_of example_set s
                                 \<and> res_y 
       \<lparr>res_x = ''A'', res_y = ''B'', res_shared = fset_of_list [''g1'', ''g2''], res_c = 2\<rparr> |\<in>| closure_of example_set s) (subjects example_set))
   \<and> res_c 
       \<lparr>res_x = ''A'', res_y = ''B'', res_shared = fset_of_list [''g1'', ''g2''], res_c = 2\<rparr> = int (fcard (res_shared 
       \<lparr>res_x = ''A'', res_y = ''B'', res_shared = fset_of_list [''g1'', ''g2''], res_c = 2\<rparr>))
   \<and> distinct [''A'', ''B'']
   \<and> distinct (map (\<lambda>r. {res_x r, res_y r}) [
       \<lparr>res_x = ''A'', res_y = ''B'', res_shared = fset_of_list [''g1'', ''g2''], res_c = 2\<rparr>])"
proof -
  have q: "query_intersections example_set [''A'', ''B''] [''C''] = Inr [
       \<lparr>res_x = ''A'', res_y = ''B'', res_shared = fset_of_list [''g1'', ''g2''], res_c = 2\<rparr>]"
    by code_simp
  have m: "
       \<lparr>res_x = ''A'', res_y = ''B'', res_shared = fset_of_list [''g1'', ''g2''], res_c = 2\<rparr> \<in> set [
       \<lparr>res_x = ''A'', res_y = ''B'', res_shared = fset_of_list [''g1'', ''g2''], res_c = 2\<rparr>]"
    by simp
  have d: "distinct [''A'', ''B'']"
    by simp
  show ?thesis
    using q m d intersections_records [OF q] by blast
qed

text \<open>
  C7. The result of \<^verbatim>\<open>query_intersections\<close>, a list of records or an error, is the same for
  any two \<open>y_terms\<close> arguments, and both terms of every returned record are members of
  \<open>x_terms\<close>.
\<close>

theorem intersections_ignore_y_terms:
  "query_intersections self x_terms y1 = query_intersections self x_terms y2
   \<and> (\<forall>ilist. query_intersections self x_terms y1 = Inr ilist \<longrightarrow>
        (\<forall>r \<in> set ilist. res_x r \<in> set x_terms \<and> res_y r \<in> set x_terms))"
proof
  show "query_intersections self x_terms y1 = query_intersections self x_terms y2"
    by (simp only: query_intersections_eq)
  show "\<forall>ilist. query_intersections self x_terms y1 = Inr ilist \<longrightarrow>
        (\<forall>r \<in> set ilist. res_x r \<in> set x_terms \<and> res_y r \<in> set x_terms)"
  proof (intro allI impI ballI)
    fix ilist r
    assume "query_intersections self x_terms y1 = Inr ilist" and "r \<in> set ilist"
    then have "r \<in> set (pair_records self x_terms)"
      using query_intersections_Inr by blast
    then obtain x y where "x \<in> set x_terms" "y \<in> set x_terms" "r = pair_record self x y"
      using pair_records_member by blast
    then show "res_x r \<in> set x_terms \<and> res_y r \<in> set x_terms"
      by (simp add: pair_record_def)
  qed
qed

theorem intersections_ignore_y_terms_witness:
  "query_intersections example_set [''B'', ''C''] [''A''] = Inr [
       \<lparr>res_x = ''B'', res_y = ''C'', res_shared = fset_of_list [''g1'', ''g2'', ''g3''], res_c = 3\<rparr>]
   \<and> query_intersections example_set [''B'', ''C''] [] = Inr [
       \<lparr>res_x = ''B'', res_y = ''C'', res_shared = fset_of_list [''g1'', ''g2'', ''g3''], res_c = 3\<rparr>]
   \<and> res_x 
       \<lparr>res_x = ''B'', res_y = ''C'', res_shared = fset_of_list [''g1'', ''g2'', ''g3''], res_c = 3\<rparr> \<in> set [''B'', ''C'']
   \<and> res_y 
       \<lparr>res_x = ''B'', res_y = ''C'', res_shared = fset_of_list [''g1'', ''g2'', ''g3''], res_c = 3\<rparr> \<in> set [''B'', ''C'']"
proof -
  have q: "query_intersections example_set [''B'', ''C''] [''A''] = Inr [
       \<lparr>res_x = ''B'', res_y = ''C'', res_shared = fset_of_list [''g1'', ''g2'', ''g3''], res_c = 3\<rparr>]"
    by code_simp
  have m: "
       \<lparr>res_x = ''B'', res_y = ''C'', res_shared = fset_of_list [''g1'', ''g2'', ''g3''], res_c = 3\<rparr> \<in> set [
       \<lparr>res_x = ''B'', res_y = ''C'', res_shared = fset_of_list [''g1'', ''g2'', ''g3''], res_c = 3\<rparr>]"
    by simp
  note w = intersections_ignore_y_terms
      [where self = example_set and x_terms = "[''B'', ''C'']" and ?y1.0 = "[''A'']"
        and ?y2.0 = "[]"]
  have e: "query_intersections example_set [''B'', ''C''] [] = Inr [
       \<lparr>res_x = ''B'', res_y = ''C'', res_shared = fset_of_list [''g1'', ''g2'', ''g3''], res_c = 3\<rparr>]"
    using w q by simp
  show ?thesis
    using q e m w by blast
qed

section \<open>Term enrichment: the counts\<close>

lemma sorted_list_of_fset_empty [simp]: "sorted_list_of_fset {||} = []"
  by (simp add: sorted_list_of_fset.rep_eq)

lemma length_filter_sorted_list_of_fset:
  "int (length (filter P (sorted_list_of_fset S))) = int (fcard (ffilter P S))"
proof -
  have "length (filter P (sorted_list_of_fset S)) = card ({x. P x} \<inter> set (sorted_list_of_fset S))"
    by (rule distinct_length_filter) simp
  also have "{x. P x} \<inter> set (sorted_list_of_fset S) = fset (ffilter P S)"
    by auto
  also have "card (fset (ffilter P S)) = fcard (ffilter P S)"
    by (simp only: fcard.rep_eq)
  finally show ?thesis
    by simp
qed

lemma hypotheses_loop_eq:
  "hypotheses_loop self ss hypotheses =
     (if \<forall>s \<in> set ss. inferred_types self s = Inr (closure_of self s)
      then Inr (hypotheses |\<union>| closure_union self (fset_of_list ss))
      else Inl TypeError)"
proof (induction ss arbitrary: hypotheses)
  case Nil
  then show ?case by (simp add: closure_union_def)
next
  case (Cons s ss)
  show ?case
  proof (cases "inferred_types self s = Inr (closure_of self s)")
    case False
    then have "inferred_types self s = Inl TypeError"
      using inferred_types_cases [of self s] by simp
    then show ?thesis by simp
  next
    case True
    then show ?thesis
      using Cons.IH [of "hypotheses |\<union>| closure_of self s"]
      by (auto simp: closure_union_def)
  qed
qed

lemma counts_init_loop_eq:
  "counts_init_loop cs (bg_count, sample_count) =
     ((\<lambda>c. if c \<in> set cs then Some 0 else bg_count c),
      (\<lambda>c. if c \<in> set cs then Some 0 else sample_count c))"
  by (induction cs arbitrary: bg_count sample_count) (auto simp: fun_eq_iff)

lemma count_incr_loop_eq:
  assumes "distinct as" and "set as \<subseteq> dom cnt"
  shows "count_incr_loop as cnt =
     Inr (\<lambda>z. if z \<in> set as then map_option (\<lambda>n. n + 1) (cnt z) else cnt z)"
  using assms
proof (induction as arbitrary: cnt)
  case Nil
  then show ?case by simp
next
  case (Cons a as)
  then obtain n where n: "cnt a = Some n" by auto
  have d: "distinct as" and m: "a \<notin> set as"
    using Cons.prems by auto
  have s: "set as \<subseteq> dom (cnt(a \<mapsto> n + 1))"
    using Cons.prems by auto
  have "count_incr_loop as (cnt(a \<mapsto> n + 1)) =
      Inr (\<lambda>z. if z \<in> set as then map_option (\<lambda>n. n + 1) ((cnt(a \<mapsto> n + 1)) z)
               else (cnt(a \<mapsto> n + 1)) z)"
    using d s by (rule Cons.IH)
  also have "(\<lambda>z. if z \<in> set as then map_option (\<lambda>n. n + 1) ((cnt(a \<mapsto> n + 1)) z)
               else (cnt(a \<mapsto> n + 1)) z) =
      (\<lambda>z. if z \<in> set (a # as) then map_option (\<lambda>n. n + 1) (cnt z) else cnt z)"
    using m n by (auto simp: fun_eq_iff)
  finally have f: "count_incr_loop as (cnt(a \<mapsto> n + 1)) =
      Inr (\<lambda>z. if z \<in> set (a # as) then map_option (\<lambda>n. n + 1) (cnt z) else cnt z)" .
  show ?case
    by (simp only: count_incr_loop.simps n option.case f)
qed

lemma bg_count_loop_eq:
  assumes "fset hypotheses \<subseteq> dom cnt"
  shows "bg_count_loop self hypotheses ss cnt =
     (if \<forall>s \<in> set ss. inferred_types self s = Inr (closure_of self s)
      then Inr (\<lambda>z. if z |\<in>| hypotheses
                     then map_option
                            (\<lambda>n. n + int (length (filter (\<lambda>s. z |\<in>| closure_of self s) ss)))
                            (cnt z)
                     else cnt z)
      else Inl TypeError)"
  using assms
proof (induction ss arbitrary: cnt)
  case Nil
  then show ?case by (auto simp: fun_eq_iff option.map_ident)
next
  case (Cons s rest)
  show ?case
  proof (cases "inferred_types self s = Inr (closure_of self s)")
    case False
    then have "inferred_types self s = Inl TypeError"
      using inferred_types_cases [of self s] by simp
    then show ?thesis by simp
  next
    case True
    let ?as = "sorted_list_of_fset (closure_of self s |\<inter>| hypotheses)"
    let ?c1 = "\<lambda>z. if z \<in> set ?as then map_option (\<lambda>n. n + 1) (cnt z) else cnt z"
    have a: "count_incr_loop ?as cnt = Inr ?c1"
      using Cons.prems by (intro count_incr_loop_eq) auto
    have d: "fset hypotheses \<subseteq> dom ?c1"
      using Cons.prems by (auto simp: dom_def)
    show ?thesis
      using True a Cons.IH [OF d]
      by (auto simp: fun_eq_iff option.map_comp comp_def add.assoc)
  qed
qed

lemma sample_count_loop_eq:
  assumes "\<forall>s \<in> set ss. inferred_types self s = Inr (closure_of self s)"
    and "\<forall>s \<in> set ss. fset (closure_of self s) \<subseteq> dom cnt"
  shows "sample_count_loop self ss cnt =
     Inr (\<lambda>z. map_option
                 (\<lambda>n. n + int (length (filter (\<lambda>s. z |\<in>| closure_of self s) ss))) (cnt z))"
  using assms
proof (induction ss arbitrary: cnt)
  case Nil
  then show ?case by (auto simp: fun_eq_iff option.map_ident)
next
  case (Cons s rest)
  let ?as = "sorted_list_of_fset (closure_of self s)"
  let ?c1 = "\<lambda>z. if z \<in> set ?as then map_option (\<lambda>n. n + 1) (cnt z) else cnt z"
  have t: "inferred_types self s = Inr (closure_of self s)"
    using Cons.prems by simp
  have a: "count_incr_loop ?as cnt = Inr ?c1"
    using Cons.prems by (intro count_incr_loop_eq) auto
  have h: "\<forall>s \<in> set rest. inferred_types self s = Inr (closure_of self s)"
    using Cons.prems by simp
  have d: "\<forall>s' \<in> set rest. fset (closure_of self s') \<subseteq> dom ?c1"
    using Cons.prems(2) by (auto simp: dom_def)
  show ?case
    using t a Cons.IH [OF h d]
    by (auto simp: fun_eq_iff option.map_comp comp_def add.assoc)
qed


lemma closure_union_member:
  "z |\<in>| closure_union self S \<longleftrightarrow> (\<exists>s. s |\<in>| S \<and> z |\<in>| closure_of self s)"
  by (auto simp: closure_union_def ffUnion.rep_eq fimage.rep_eq)

lemma enrichment_counts_eq:
  "enrichment_counts self subjs background =
     (if \<forall>s \<in> fset (effective_background self subjs background).
           inferred_types self s = Inr (closure_of self s)
      then Inr (expected_counts self subjs background)
      else Inl TypeError)"
proof -
  let ?S = "fset_of_list subjs"
  let ?B = "effective_background self subjs background"
  let ?hyp = "closure_union self ?S"
  let ?ok = "\<lambda>s. inferred_types self s = Inr (closure_of self s)"
  let ?z0 = "\<lambda>c. if c |\<in>| ?hyp then Some (0::int) else None"
  have B: "?B = (case background of None \<Rightarrow> fset_of_list (subjects self)
                  | Some bg \<Rightarrow> fset_of_list bg) |\<union>| ?S"
    by (simp add: effective_background_def)
  have sub: "fset ?S \<subseteq> fset ?B"
    unfolding B by auto
  have h: "hypotheses_loop self (sorted_list_of_fset ?S) {||} =
      (if \<forall>s \<in> fset ?S. ?ok s then Inr ?hyp else Inl TypeError)"
    by (simp add: hypotheses_loop_eq)
  have i: "counts_init_loop (sorted_list_of_fset ?hyp) (Map.empty, Map.empty) = (?z0, ?z0)"
    by (simp add: counts_init_loop_eq)
  have b: "bg_count_loop self ?hyp (sorted_list_of_fset ?B) ?z0 =
      (if \<forall>s \<in> fset ?B. ?ok s then Inr (cs_bg_count (expected_counts self subjs background))
       else Inl TypeError)"
  proof -
    have "fset ?hyp \<subseteq> dom ?z0"
      by (auto simp: dom_def)
    then have "bg_count_loop self ?hyp (sorted_list_of_fset ?B) ?z0 =
      (if \<forall>s \<in> set (sorted_list_of_fset ?B). ?ok s
       then Inr (\<lambda>z. if z |\<in>| ?hyp
                     then map_option
                            (\<lambda>n. n + int (length (filter (\<lambda>s. z |\<in>| closure_of self s)
                                                     (sorted_list_of_fset ?B))))
                            (?z0 z)
                     else ?z0 z)
       else Inl TypeError)"
      by (rule bg_count_loop_eq)
    also have "(\<lambda>z. if z |\<in>| ?hyp
                     then map_option
                            (\<lambda>n. n + int (length (filter (\<lambda>s. z |\<in>| closure_of self s)
                                                     (sorted_list_of_fset ?B))))
                            (?z0 z)
                     else ?z0 z) = cs_bg_count (expected_counts self subjs background)"
      by (auto simp: fun_eq_iff expected_counts_def term_count_def
          length_filter_sorted_list_of_fset)
    finally show ?thesis
      by simp
  qed
  have s: "(\<forall>s \<in> fset ?S. ?ok s) \<Longrightarrow>
      sample_count_loop self (sorted_list_of_fset ?S) ?z0 =
        Inr (cs_sample_count (expected_counts self subjs background))"
  proof -
    assume ok: "\<forall>s \<in> fset ?S. ?ok s"
    have 1: "\<forall>s \<in> set (sorted_list_of_fset ?S). ?ok s"
      using ok by simp
    have 2: "\<forall>s \<in> set (sorted_list_of_fset ?S). fset (closure_of self s) \<subseteq> dom ?z0"
      by (auto simp: dom_def closure_union_member)
    have "sample_count_loop self (sorted_list_of_fset ?S) ?z0 =
      Inr (\<lambda>z. map_option
                 (\<lambda>n. n + int (length (filter (\<lambda>s. z |\<in>| closure_of self s)
                                          (sorted_list_of_fset ?S)))) (?z0 z))"
      using 1 2 by (rule sample_count_loop_eq)
    also have "(\<lambda>z. map_option
                 (\<lambda>n. n + int (length (filter (\<lambda>s. z |\<in>| closure_of self s)
                                          (sorted_list_of_fset ?S)))) (?z0 z)) =
        cs_sample_count (expected_counts self subjs background)"
      by (auto simp: fun_eq_iff expected_counts_def term_count_def
          length_filter_sorted_list_of_fset)
    finally show ?thesis .
  qed
  have e: "\<lparr>cs_hypotheses = ?hyp, cs_background = ?B, cs_sample_size = int (fcard ?S),
            cs_bg_size = int (fcard ?B),
            cs_bg_count = cs_bg_count (expected_counts self subjs background),
            cs_sample_count = cs_sample_count (expected_counts self subjs background)\<rparr> =
        expected_counts self subjs background"
    by (simp add: expected_counts_def)
  show ?thesis
  proof (cases "\<forall>s \<in> fset ?B. ?ok s")
    case True
    then have okS: "\<forall>s \<in> fset ?S. ?ok s"
      using sub by blast
    have h': "hypotheses_loop self (sorted_list_of_fset ?S) {||} = Inr ?hyp"
      using okS by (simp add: h)
    have b': "bg_count_loop self ?hyp (sorted_list_of_fset ?B) ?z0 =
        Inr (cs_bg_count (expected_counts self subjs background))"
      using True by (simp add: b)
    have "enrichment_counts self subjs background = Inr (expected_counts self subjs background)"
      by (simp add: enrichment_counts_def Let_def B [symmetric] h' i b' s [OF okS] e)
    then show ?thesis
      using True by simp
  next
    case False
    have "enrichment_counts self subjs background = Inl TypeError"
    proof (cases "\<forall>s \<in> fset ?S. ?ok s")
      case True
      have h': "hypotheses_loop self (sorted_list_of_fset ?S) {||} = Inr ?hyp"
        using True by (simp add: h)
      have b': "bg_count_loop self ?hyp (sorted_list_of_fset ?B) ?z0 = Inl TypeError"
        by (simp only: b False if_False)
      show ?thesis
        by (simp add: enrichment_counts_def Let_def B [symmetric] h' i b')
    next
      case F: False
      have h': "hypotheses_loop self (sorted_list_of_fset ?S) {||} = Inl TypeError"
        by (simp only: h F if_False)
      show ?thesis
        by (simp add: enrichment_counts_def Let_def h')
    qed
    then show ?thesis
      by (simp only: False if_False)
  qed
qed

lemma enrichment_counts_Inr:
  assumes "enrichment_counts self subjs background = Inr cs"
  shows "cs = expected_counts self subjs background"
  using assms unfolding enrichment_counts_eq by (simp split: if_splits)

lemma enrichment_counts_lenient:
  assumes "\<not> strict self"
  shows "enrichment_counts self subjs background = Inr (expected_counts self subjs background)"
  unfolding enrichment_counts_eq using assms by (simp add: inferred_types_lenient)

lemma sample_subset_background:
  "fset_of_list subjs |\<subseteq>| effective_background self subjs background"
  by (simp add: effective_background_def)

lemma term_count_mono:
  assumes "S |\<subseteq>| B"
  shows "term_count self S z \<le> term_count self B z"
proof -
  have "ffilter (\<lambda>s. z |\<in>| closure_of self s) S |\<subseteq>| ffilter (\<lambda>s. z |\<in>| closure_of self s) B"
    using assms by auto
  then show ?thesis
    unfolding term_count_def by (simp add: fcard_mono)
qed

lemma fcard_ffilter_split:
  "fcard (ffilter P A) + fcard (ffilter (\<lambda>x. \<not> P x) A) = fcard A"
proof -
  have "ffilter P A |\<inter>| ffilter (\<lambda>x. \<not> P x) A = {||}"
    by auto
  then have "fcard (ffilter P A |\<union>| ffilter (\<lambda>x. \<not> P x) A) =
      fcard (ffilter P A) + fcard (ffilter (\<lambda>x. \<not> P x) A)"
    by (rule fcard_funion_disjoint)
  moreover have "ffilter P A |\<union>| ffilter (\<lambda>x. \<not> P x) A = A"
    by auto
  ultimately show ?thesis
    by simp
qed

lemma term_count_le_size: "term_count self S z \<le> int (fcard S)"
  unfolding term_count_def using fcard_ffilter_split [of "\<lambda>s. z |\<in>| closure_of self s" S]
  by linarith

lemma term_count_complement_mono:
  assumes "S |\<subseteq>| B"
  shows "int (fcard S) - term_count self S z \<le> int (fcard B) - term_count self B z"
proof -
  let ?P = "\<lambda>s. z |\<in>| closure_of self s"
  have "ffilter (\<lambda>x. \<not> ?P x) S |\<subseteq>| ffilter (\<lambda>x. \<not> ?P x) B"
    using assms by auto
  then have "fcard (ffilter (\<lambda>x. \<not> ?P x) S) \<le> fcard (ffilter (\<lambda>x. \<not> ?P x) B)"
    by (rule fcard_mono)
  then show ?thesis
    unfolding term_count_def
    using fcard_ffilter_split [of ?P S] fcard_ffilter_split [of ?P B] by linarith
qed

lemma contingency_expected:
  assumes "cls |\<in>| closure_union self (fset_of_list subjs)"
  shows "contingency (expected_counts self subjs background) cls =
     Inr (term_count self (fset_of_list subjs) cls,
          int (fcard (fset_of_list subjs)) - term_count self (fset_of_list subjs) cls,
          term_count self (effective_background self subjs background) cls
            - term_count self (fset_of_list subjs) cls,
          (int (fcard (effective_background self subjs background))
             - term_count self (effective_background self subjs background) cls)
            - (int (fcard (fset_of_list subjs)) - term_count self (fset_of_list subjs) cls))"
  using assms by (simp add: contingency_def expected_counts_def Let_def)

text \<open>
  C8. When \<^verbatim>\<open>enrichment_test\<close> has computed its counts, the background is the given one
  (or all indexed subjects) extended by the sample, and for every hypothesis term, hence for
  every retained one, the four cells exist and are not negative: \<open>a\<close> is the sample count
  and is at most the background count, \<open>b = sample_size - a\<close>, \<open>c = bg_count - a\<close> and
  \<open>d = (bg_size - bg_count) - b\<close>.
\<close>

theorem contingency_cells_nonnegative:
  assumes "enrichment_counts self subjs background = Inr cs"
    and "cls |\<in>| cs_hypotheses cs"
  shows "\<exists>a b c d n.
           contingency cs cls = Inr (a, b, c, d)
         \<and> cs_background cs = effective_background self subjs background
         \<and> fset_of_list subjs |\<subseteq>| cs_background cs
         \<and> cs_sample_size cs = int (fcard (fset_of_list subjs))
         \<and> cs_bg_size cs = int (fcard (cs_background cs))
         \<and> cs_sample_count cs cls = Some a
         \<and> a = term_count self (fset_of_list subjs) cls
         \<and> cs_bg_count cs cls = Some n
         \<and> n = term_count self (cs_background cs) cls
         \<and> b = cs_sample_size cs - a
         \<and> c = n - a
         \<and> d = (cs_bg_size cs - n) - b
         \<and> a \<le> n \<and> 0 \<le> a \<and> 0 \<le> b \<and> 0 \<le> c \<and> 0 \<le> d"
proof -
  let ?S = "fset_of_list subjs"
  let ?B = "effective_background self subjs background"
  have cs: "cs = expected_counts self subjs background"
    using assms(1) by (rule enrichment_counts_Inr)
  have m: "cls |\<in>| closure_union self ?S"
    using assms(2) unfolding cs by (simp add: expected_counts_def)
  have sub: "?S |\<subseteq>| ?B"
    by (rule sample_subset_background)
  have 1: "term_count self ?S cls \<le> term_count self ?B cls"
    using sub by (rule term_count_mono)
  have 2: "0 \<le> term_count self ?S cls"
    by (simp add: term_count_def)
  have 3: "term_count self ?S cls \<le> int (fcard ?S)"
    by (rule term_count_le_size)
  have 4: "int (fcard ?S) - term_count self ?S cls \<le> int (fcard ?B) - term_count self ?B cls"
    using sub by (rule term_count_complement_mono)
  show ?thesis
    unfolding cs contingency_expected [OF m]
    using m sub 1 2 3 4 by (simp add: expected_counts_def)
qed


theorem contingency_cells_nonnegative_witness:
  "enrichment_counts example_set [''g1'', ''g2''] None =
     Inr (expected_counts example_set [''g1'', ''g2''] None)
   \<and> ''A'' |\<in>| cs_hypotheses (expected_counts example_set [''g1'', ''g2''] None)
   \<and> (\<exists>a b c d. contingency (expected_counts example_set [''g1'', ''g2''] None) ''A''
                   = Inr (a, b, c, d)
                 \<and> 0 \<le> a \<and> 0 \<le> b \<and> 0 \<le> c \<and> 0 \<le> d)
   \<and> contingency (expected_counts example_set [''g1'', ''g2''] None) ''A'' = Inr (2, 0, 0, 1)"
proof -
  have l: "\<not> strict example_set"
    by (simp add: example_set_def)
  have q: "enrichment_counts example_set [''g1'', ''g2''] None =
     Inr (expected_counts example_set [''g1'', ''g2''] None)"
    using l by (rule enrichment_counts_lenient)
  have m: "''A'' |\<in>| cs_hypotheses (expected_counts example_set [''g1'', ''g2''] None)"
    by code_simp
  have v: "contingency (expected_counts example_set [''g1'', ''g2''] None) ''A'' = Inr (2, 0, 0, 1)"
    by code_simp
  show ?thesis
    using q m v contingency_cells_nonnegative [OF q m] by blast
qed

section \<open>Term enrichment: the results\<close>

lemma filter_hypotheses_eq:
  assumes "\<forall>x \<in> set xs. m x = Some (f x)"
  shows "filter_hypotheses xs m = Inr (filter (\<lambda>x. f x > 1) xs)"
  using assms by (induction xs) simp_all

lemma filter_hypotheses_expected:
  "filter_hypotheses
     (sorted_list_of_fset (cs_hypotheses (expected_counts self subjs background)))
     (cs_bg_count (expected_counts self subjs background)) =
   Inr (filter (\<lambda>x. term_count self (effective_background self subjs background) x > 1)
          (sorted_list_of_fset (cs_hypotheses (expected_counts self subjs background))))"
  by (rule filter_hypotheses_eq) (simp add: expected_counts_def)

lemma enrichment_loop_results:
  assumes "enrichment_loop fisher_exact self cs n threshold labels direction hyps results = Inr out"
  shows "\<forall>r \<in> set out.
           r \<in> set results
         \<or> (enr_c r \<in> set hyps
            \<and> (\<exists>a b c d. contingency cs (enr_c r) = Inr (a, b, c, d)
                  \<and> enr_p_uncorrected r = fisher_exact [[a, b], [c, d]] direction)
            \<and> enr_p r = min 1 (enr_p_uncorrected r * of_int n)
            \<and> enr_p r < threshold)"
  using assms
proof (induction hyps arbitrary: results)
  case Nil
  then show ?case by simp
next
  case (Cons cls rest)
  from Cons.prems obtain a b c d where t: "contingency cs cls = Inr (a, b, c, d)"
    by (auto split: sum.splits)
  let ?pu = "fisher_exact [[a, b], [c, d]] direction"
  let ?p = "if ?pu * of_int n > 1 then 1 else ?pu * of_int n"
  let ?r = "\<lparr>enr_c = cls, enr_p = ?p, enr_p_uncorrected = ?pu,
             enr_n = (if labels then Some (label (ontology self) cls) else None)\<rparr>"
  show ?case
  proof (cases "?p < threshold")
    case True
    then have "enrichment_loop fisher_exact self cs n threshold labels direction rest
        (results @ [?r]) = Inr out"
      using Cons.prems t by (simp add: Let_def)
    then have ih: "\<forall>r \<in> set out.
           r \<in> set (results @ [?r])
         \<or> (enr_c r \<in> set rest
            \<and> (\<exists>a b c d. contingency cs (enr_c r) = Inr (a, b, c, d)
                  \<and> enr_p_uncorrected r = fisher_exact [[a, b], [c, d]] direction)
            \<and> enr_p r = min 1 (enr_p_uncorrected r * of_int n)
            \<and> enr_p r < threshold)"
      by (rule Cons.IH)
    have new: "enr_c ?r \<in> set (cls # rest)
            \<and> (\<exists>a b c d. contingency cs (enr_c ?r) = Inr (a, b, c, d)
                  \<and> enr_p_uncorrected ?r = fisher_exact [[a, b], [c, d]] direction)
            \<and> enr_p ?r = min 1 (enr_p_uncorrected ?r * of_int n)
            \<and> enr_p ?r < threshold"
      using True t by (simp add: min_def)
    show ?thesis
    proof
      fix r assume "r \<in> set out"
      then consider "r \<in> set results" | "r = ?r"
        | "enr_c r \<in> set rest
            \<and> (\<exists>a b c d. contingency cs (enr_c r) = Inr (a, b, c, d)
                  \<and> enr_p_uncorrected r = fisher_exact [[a, b], [c, d]] direction)
            \<and> enr_p r = min 1 (enr_p_uncorrected r * of_int n)
            \<and> enr_p r < threshold"
        using ih by auto
      then show "r \<in> set results
         \<or> (enr_c r \<in> set (cls # rest)
            \<and> (\<exists>a b c d. contingency cs (enr_c r) = Inr (a, b, c, d)
                  \<and> enr_p_uncorrected r = fisher_exact [[a, b], [c, d]] direction)
            \<and> enr_p r = min 1 (enr_p_uncorrected r * of_int n)
            \<and> enr_p r < threshold)"
      proof cases
        case 1
        then show ?thesis by simp
      next
        case 2
        then show ?thesis using new by simp
      next
        case 3
        then show ?thesis by simp
      qed
    qed
  next
    case False
    then have "enrichment_loop fisher_exact self cs n threshold labels direction rest results
        = Inr out"
      using Cons.prems t by (simp add: Let_def)
    then have "\<forall>r \<in> set out.
           r \<in> set results
         \<or> (enr_c r \<in> set rest
            \<and> (\<exists>a b c d. contingency cs (enr_c r) = Inr (a, b, c, d)
                  \<and> enr_p_uncorrected r = fisher_exact [[a, b], [c, d]] direction)
            \<and> enr_p r = min 1 (enr_p_uncorrected r * of_int n)
            \<and> enr_p r < threshold)"
      by (rule Cons.IH)
    then show ?thesis by auto
  qed
qed

lemma enrichment_loop_total:
  assumes "\<forall>cls \<in> set hyps. \<exists>t. contingency cs cls = Inr t"
  shows "\<exists>out. enrichment_loop fisher_exact self cs n threshold labels direction hyps results
           = Inr out"
  using assms
  by (induction hyps arbitrary: results) (auto simp: Let_def split: prod.splits)

lemma bonferroni_inflates:
  fixes p :: real
  assumes "0 \<le> p" and "p \<le> 1" and "1 \<le> n"
  shows "p \<le> min 1 (p * n)"
proof -
  have "p * 1 \<le> p * n"
    using assms(3) assms(1) by (rule mult_left_mono)
  then show ?thesis
    using assms(2) by simp
qed


lemma enrichment_test_Inr:
  assumes "enrichment_test fisher_exact self subjs background threshold labels direction
             = Inr results"
  shows "\<exists>retained out.
           enrichment_counts self subjs background = Inr (expected_counts self subjs background)
         \<and> filter_hypotheses
              (sorted_list_of_fset (cs_hypotheses (expected_counts self subjs background)))
              (cs_bg_count (expected_counts self subjs background)) = Inr retained
         \<and> enrichment_loop fisher_exact self (expected_counts self subjs background)
              (int (length retained)) threshold labels direction retained [] = Inr out
         \<and> results = sort_key enr_p out"
proof -
  from assms obtain cs where c: "enrichment_counts self subjs background = Inr cs"
    by (auto simp: enrichment_test_def split: sum.splits)
  then have cs: "cs = expected_counts self subjs background"
    by (rule enrichment_counts_Inr)
  from assms c obtain retained where
    f: "filter_hypotheses (sorted_list_of_fset (cs_hypotheses cs)) (cs_bg_count cs) = Inr retained"
    by (auto simp: enrichment_test_def split: sum.splits)
  from assms c f obtain out where
    "enrichment_loop fisher_exact self cs (int (length retained)) threshold labels direction
       retained [] = Inr out" and "results = sort_key enr_p out"
    by (auto simp: enrichment_test_def Let_def split: sum.splits)
  then show ?thesis
    using c f unfolding cs by blast
qed

text \<open>
  C3. When \<^verbatim>\<open>enrichment_test\<close> returns, the retained hypotheses are the hypothesis terms
  whose background count exceeds 1 (a term with background count at most 1 is discarded),
  the correction factor is their number, and every returned record is for a retained term
  and has \<open>p = min 1 (p_uncorrected * num_hypotheses)\<close>; hence \<open>p_uncorrected \<le> p\<close> when
  the exact test gave a p-value between 0 and 1.
\<close>

theorem enrichment_bonferroni:
  assumes "enrichment_test fisher_exact self subjs background threshold labels direction
             = Inr results"
  shows "\<exists>cs retained.
           enrichment_counts self subjs background = Inr cs
         \<and> filter_hypotheses (sorted_list_of_fset (cs_hypotheses cs)) (cs_bg_count cs)
             = Inr retained
         \<and> retained = filter (\<lambda>x. 1 < term_count self (cs_background cs) x)
                         (sorted_list_of_fset (cs_hypotheses cs))
         \<and> (\<forall>x. term_count self (cs_background cs) x \<le> 1 \<longrightarrow> x \<notin> set retained)
         \<and> (\<forall>r \<in> set results.
                enr_c r \<in> set retained
              \<and> 1 < term_count self (cs_background cs) (enr_c r)
              \<and> (\<exists>a b c d. contingency cs (enr_c r) = Inr (a, b, c, d)
                    \<and> enr_p_uncorrected r = fisher_exact [[a, b], [c, d]] direction)
              \<and> enr_p r = min 1 (enr_p_uncorrected r * real (length retained))
              \<and> (0 \<le> enr_p_uncorrected r \<and> enr_p_uncorrected r \<le> 1
                    \<longrightarrow> enr_p_uncorrected r \<le> enr_p r))"
proof -
  let ?cs = "expected_counts self subjs background"
  let ?B = "effective_background self subjs background"
  from enrichment_test_Inr [OF assms] obtain retained out where
    c: "enrichment_counts self subjs background = Inr ?cs" and
    f: "filter_hypotheses (sorted_list_of_fset (cs_hypotheses ?cs)) (cs_bg_count ?cs)
          = Inr retained" and
    l: "enrichment_loop fisher_exact self ?cs (int (length retained)) threshold labels direction
          retained [] = Inr out" and
    s: "results = sort_key enr_p out"
    by blast
  have bg: "cs_background ?cs = ?B"
    by (simp add: expected_counts_def)
  have r: "retained = filter (\<lambda>x. 1 < term_count self ?B x)
                        (sorted_list_of_fset (cs_hypotheses ?cs))"
    using f unfolding filter_hypotheses_expected by simp
  have d: "\<forall>x. term_count self ?B x \<le> 1 \<longrightarrow> x \<notin> set retained"
    unfolding r by auto
  have "\<forall>r \<in> set results.
                enr_c r \<in> set retained
              \<and> 1 < term_count self ?B (enr_c r)
              \<and> (\<exists>a b c d. contingency ?cs (enr_c r) = Inr (a, b, c, d)
                    \<and> enr_p_uncorrected r = fisher_exact [[a, b], [c, d]] direction)
              \<and> enr_p r = min 1 (enr_p_uncorrected r * real (length retained))
              \<and> (0 \<le> enr_p_uncorrected r \<and> enr_p_uncorrected r \<le> 1
                    \<longrightarrow> enr_p_uncorrected r \<le> enr_p r)"
  proof
    fix x assume "x \<in> set results"
    then have "x \<in> set out"
      unfolding s by simp
    then have p: "enr_c x \<in> set retained
            \<and> (\<exists>a b c d. contingency ?cs (enr_c x) = Inr (a, b, c, d)
                  \<and> enr_p_uncorrected x = fisher_exact [[a, b], [c, d]] direction)
            \<and> enr_p x = min 1 (enr_p_uncorrected x * of_int (int (length retained)))"
      using enrichment_loop_results [OF l] by auto
    then have m: "enr_c x \<in> set retained"
      by simp
    then have n: "1 \<le> real (length retained)"
      by (cases retained) simp_all
    have t: "1 < term_count self ?B (enr_c x)"
      using m unfolding r by simp
    have e: "enr_p x = min 1 (enr_p_uncorrected x * real (length retained))"
      using p by simp
    have i: "0 \<le> enr_p_uncorrected x \<and> enr_p_uncorrected x \<le> 1
               \<longrightarrow> enr_p_uncorrected x \<le> enr_p x"
      unfolding e using bonferroni_inflates [OF _ _ n] by blast
    show "enr_c x \<in> set retained
              \<and> 1 < term_count self ?B (enr_c x)
              \<and> (\<exists>a b c d. contingency ?cs (enr_c x) = Inr (a, b, c, d)
                    \<and> enr_p_uncorrected x = fisher_exact [[a, b], [c, d]] direction)
              \<and> enr_p x = min 1 (enr_p_uncorrected x * real (length retained))
              \<and> (0 \<le> enr_p_uncorrected x \<and> enr_p_uncorrected x \<le> 1
                    \<longrightarrow> enr_p_uncorrected x \<le> enr_p x)"
      using p t e i by blast
  qed
  then show ?thesis
    using c f r d unfolding bg [symmetric] by blast
qed


theorem enrichment_bonferroni_witness:
  "enrichment_test example_test example_set [''g1'', ''g2''] None (5 / 100) False ''greater'' =
     Inr [\<lparr>enr_c = ''A'', enr_p = 3 / 100, enr_p_uncorrected = 1 / 100, enr_n = None\<rparr>,
          \<lparr>enr_c = ''B'', enr_p = 3 / 100, enr_p_uncorrected = 1 / 100, enr_n = None\<rparr>,
          \<lparr>enr_c = ''C'', enr_p = 3 / 100, enr_p_uncorrected = 1 / 100, enr_n = None\<rparr>]
   \<and> (\<exists>cs retained.
         enrichment_counts example_set [''g1'', ''g2''] None = Inr cs
       \<and> retained = filter (\<lambda>x. 1 < term_count example_set (cs_background cs) x)
                       (sorted_list_of_fset (cs_hypotheses cs))
       \<and> enr_c \<lparr>enr_c = ''A'', enr_p = 3 / 100, enr_p_uncorrected = 1 / 100, enr_n = None\<rparr> \<in> set retained
       \<and> enr_p \<lparr>enr_c = ''A'', enr_p = 3 / 100, enr_p_uncorrected = 1 / 100, enr_n = None\<rparr> = min 1 (enr_p_uncorrected \<lparr>enr_c = ''A'', enr_p = 3 / 100, enr_p_uncorrected = 1 / 100, enr_n = None\<rparr> * real (length retained))
       \<and> enr_p_uncorrected \<lparr>enr_c = ''A'', enr_p = 3 / 100, enr_p_uncorrected = 1 / 100, enr_n = None\<rparr> \<le> enr_p \<lparr>enr_c = ''A'', enr_p = 3 / 100, enr_p_uncorrected = 1 / 100, enr_n = None\<rparr>)"
proof -
  let ?r = "\<lparr>enr_c = ''A'', enr_p = 3 / 100, enr_p_uncorrected = 1 / 100, enr_n = None\<rparr>"
  have q: "enrichment_test example_test example_set [''g1'', ''g2''] None (5 / 100) False ''greater'' =
     Inr [\<lparr>enr_c = ''A'', enr_p = 3 / 100, enr_p_uncorrected = 1 / 100, enr_n = None\<rparr>,
          \<lparr>enr_c = ''B'', enr_p = 3 / 100, enr_p_uncorrected = 1 / 100, enr_n = None\<rparr>,
          \<lparr>enr_c = ''C'', enr_p = 3 / 100, enr_p_uncorrected = 1 / 100, enr_n = None\<rparr>]"
    by code_simp
  have m: "?r \<in> set [\<lparr>enr_c = ''A'', enr_p = 3 / 100, enr_p_uncorrected = 1 / 100, enr_n = None\<rparr>,
          \<lparr>enr_c = ''B'', enr_p = 3 / 100, enr_p_uncorrected = 1 / 100, enr_n = None\<rparr>,
          \<lparr>enr_c = ''C'', enr_p = 3 / 100, enr_p_uncorrected = 1 / 100, enr_n = None\<rparr>]"
    by simp
  have u: "0 \<le> enr_p_uncorrected ?r \<and> enr_p_uncorrected ?r \<le> 1"
    by simp
  from enrichment_bonferroni [OF q] obtain cs retained where
    c: "enrichment_counts example_set [''g1'', ''g2''] None = Inr cs" and
    r: "retained = filter (\<lambda>x. 1 < term_count example_set (cs_background cs) x)
                       (sorted_list_of_fset (cs_hypotheses cs))" and
    a: "\<forall>r \<in> set [\<lparr>enr_c = ''A'', enr_p = 3 / 100, enr_p_uncorrected = 1 / 100, enr_n = None\<rparr>,
          \<lparr>enr_c = ''B'', enr_p = 3 / 100, enr_p_uncorrected = 1 / 100, enr_n = None\<rparr>,
          \<lparr>enr_c = ''C'', enr_p = 3 / 100, enr_p_uncorrected = 1 / 100, enr_n = None\<rparr>].
                enr_c r \<in> set retained
              \<and> 1 < term_count example_set (cs_background cs) (enr_c r)
              \<and> (\<exists>a b c d. contingency cs (enr_c r) = Inr (a, b, c, d)
                    \<and> enr_p_uncorrected r = example_test [[a, b], [c, d]] ''greater'')
              \<and> enr_p r = min 1 (enr_p_uncorrected r * real (length retained))
              \<and> (0 \<le> enr_p_uncorrected r \<and> enr_p_uncorrected r \<le> 1
                    \<longrightarrow> enr_p_uncorrected r \<le> enr_p r)"
    by blast
  have "enr_c ?r \<in> set retained
      \<and> enr_p ?r = min 1 (enr_p_uncorrected ?r * real (length retained))
      \<and> enr_p_uncorrected ?r \<le> enr_p ?r"
    using a m u by blast
  then show ?thesis
    using q c r by blast
qed

lemma contingency_total:
  assumes "cls |\<in>| cs_hypotheses (expected_counts self subjs background)"
  shows "\<exists>t. contingency (expected_counts self subjs background) cls = Inr t"
proof -
  have "cls |\<in>| closure_union self (fset_of_list subjs)"
    using assms by (simp add: expected_counts_def)
  then show ?thesis
    by (simp add: contingency_expected)
qed

lemma enrichment_test_lenient:
  assumes "\<not> strict self"
  shows "\<exists>results. enrichment_test fisher_exact self subjs background threshold labels direction
           = Inr results"
proof -
  let ?cs = "expected_counts self subjs background"
  let ?B = "effective_background self subjs background"
  let ?retained = "filter (\<lambda>x. term_count self ?B x > 1) (sorted_list_of_fset (cs_hypotheses ?cs))"
  have c: "enrichment_counts self subjs background = Inr ?cs"
    using assms by (rule enrichment_counts_lenient)
  have f: "filter_hypotheses (sorted_list_of_fset (cs_hypotheses ?cs)) (cs_bg_count ?cs)
             = Inr ?retained"
    by (rule filter_hypotheses_expected)
  have "\<forall>cls \<in> set ?retained. \<exists>t. contingency ?cs cls = Inr t"
    using contingency_total by simp
  then obtain out where
    "enrichment_loop fisher_exact self ?cs (int (length ?retained)) threshold labels direction
       ?retained [] = Inr out"
    using enrichment_loop_total by blast
  then show ?thesis
    by (simp add: enrichment_test_def c f Let_def)
qed

text \<open>
  C9, as stated, fails: on an association set with no subject, an empty sample and no given
  background, the effective background is empty and \<^verbatim>\<open>enrichment_test\<close> returns the empty
  list.
\<close>

theorem enrichment_empty_background_returns:
  "effective_background (AssociationSet_init example_ontology []) [] None = {||}
   \<and> enrichment_test example_test (AssociationSet_init example_ontology []) [] None (5 / 100)
        False ''greater'' = Inr []"
  by code_simp

text \<open>
  C9, amended. Whenever the effective background is empty, \<^verbatim>\<open>enrichment_test\<close> returns the
  empty list of records, in either mode and for every exact test, threshold and direction.
\<close>

theorem enrichment_empty_background:
  assumes "effective_background self subjs background = {||}"
  shows "enrichment_test fisher_exact self subjs background threshold labels direction = Inr []"
proof -
  have s: "fset_of_list subjs = {||}"
    using assms by (simp add: effective_background_def)
  have c: "enrichment_counts self subjs background = Inr (expected_counts self subjs background)"
    unfolding enrichment_counts_eq using assms by simp
  have h: "cs_hypotheses (expected_counts self subjs background) = {||}"
    by (simp add: expected_counts_def s closure_union_def)
  show ?thesis
    by (simp add: enrichment_test_def c h)
qed

theorem enrichment_empty_background_witness:
  "effective_background example_set [] (Some []) = {||}
   \<and> enrichment_test example_test example_set [] (Some []) (5 / 100) True ''less'' = Inr []"
proof -
  have e: "effective_background example_set [] (Some []) = {||}"
    by (simp add: effective_background_def)
  show ?thesis
    using e enrichment_empty_background [OF e] by simp
qed

end
